theory Spec2Isabelle
  imports Complex_Main "HOL-Library.Multiset" "HOL-Library.AList" "HOL-Library.Product_Lexorder"
begin

section \<open>Synthetic data generation: splitting categories into divisions\<close>

datatype py_error = AssertionError | ValueError | IndexError | KeyError | TypeError

text \<open>Python's slice \<open>xs[start:stop]\<close> for non-negative bounds: bounds past the end are
  clipped and an empty list results when \<open>stop \<le> start\<close>.\<close>

definition py_slice :: "'a list \<Rightarrow> nat \<Rightarrow> nat \<Rightarrow> 'a list" where
  "py_slice xs start stop = drop start (take stop xs)"

text \<open>The two draws \<open>_split_categories\<close> takes from numpy's global generator are inputs of
  the model. \<open>np.random.shuffle\<close> rearranges the list in place, so its outcome is some
  rearrangement of it; \<open>np.random.choice(np.arange(pop), replace=False, size=k)\<close> yields
  \<open>k\<close> pairwise different members of \<open>0..<pop\<close>.\<close>

definition shuffle_outcome :: "'a list \<Rightarrow> 'a list \<Rightarrow> bool" where
  "shuffle_outcome xs shuffled \<longleftrightarrow> mset shuffled = mset xs"

definition choice_outcome :: "nat \<Rightarrow> nat \<Rightarrow> nat list \<Rightarrow> bool" where
  "choice_outcome pop k drawn \<longleftrightarrow>
     length drawn = k \<and> distinct drawn \<and> list_all (\<lambda>i. i < pop) drawn"

text \<open>The loop \<open>for ind in list(indices) + [no_categoires]\<close>: the state is \<open>start\<close>, the
  groups appended so far are returned in order.\<close>

fun subgroups_loop :: "'a list \<Rightarrow> nat \<Rightarrow> nat list \<Rightarrow> 'a list list" where
  "subgroups_loop cat_shuf start [] = []"
| "subgroups_loop cat_shuf start (ind # inds) =
     py_slice cat_shuf start ind # subgroups_loop cat_shuf ind inds"

definition split_categories ::
  "'a list \<Rightarrow> int \<Rightarrow> 'a list \<Rightarrow> nat list \<Rightarrow> py_error + 'a list list" where
  "split_categories categories divisions cat_shuf drawn =
     (let no_categoires = length categories in
      if \<not> int no_categoires \<ge> divisions then Inl AssertionError
      else if \<not> divisions > 0 then Inl AssertionError
      else if nat (divisions - 1) > no_categoires - 1 then Inl ValueError
      else
        let indices = sort (map (\<lambda>i. i + 1) drawn)
        in Inr (subgroups_loop cat_shuf 0 (indices @ [no_categoires])))"


section \<open>Synthetic data generation: the module's arrays\<close>

text \<open>numpy's float64 values are idealised: a finite value is a real number, and the one
  special value kept is NaN, which every arithmetic operation propagates. Rounding and
  the infinities are not represented; the properties proved below are about which
  positions of an array change or hold NaN, not about the digits.\<close>

datatype float64 = NaN | Fl real

fun fadd :: "float64 \<Rightarrow> float64 \<Rightarrow> float64" where
  "fadd (Fl a) (Fl b) = Fl (a + b)"
| "fadd _ _ = NaN"

fun fsub :: "float64 \<Rightarrow> float64 \<Rightarrow> float64" where
  "fsub (Fl a) (Fl b) = Fl (a - b)"
| "fsub _ _ = NaN"

fun fmul :: "float64 \<Rightarrow> float64 \<Rightarrow> float64" where
  "fmul (Fl a) (Fl b) = Fl (a * b)"
| "fmul _ _ = NaN"

text \<open>\<open>ndarray.mean()\<close>: the sum over the count; the mean of no values is NaN.\<close>

definition fmean :: "float64 list \<Rightarrow> float64" where
  "fmean xs = (if xs = [] then NaN
               else fmul (foldl fadd (Fl 0) xs) (Fl (1 / real (length xs))))"

text \<open>\<open>self.tensor\<close> has four axes: unit, time step, intervention, metric.\<close>

type_synonym tensor4 = "float64 list list list list"

datatype cell = IntC int | FloatC float64 | StrC string

text \<open>A pandas frame: its columns in order, each a name with one cell per row.\<close>

record dataframe =
  nrows :: nat
  cols :: "(string \<times> cell list) list"

text \<open>A \<open>Metric\<close> object. The class defines no equality, so \<open>list.index\<close> compares
  objects by identity: \<open>ident\<close> is the identity of the object, and whoever holds a
  reference to a metric holds its \<open>ident\<close>.\<close>

record metric_obj =
  ident :: nat
  name :: string
  metric_range :: "float64 \<times> float64"
  difference_metric :: bool
  init_values_range :: "float64 \<times> float64"
  init_values :: "float64 list option"
  clip_range :: "(float64 \<times> float64) option"

text \<open>An entry of the \<open>effects\<close> list: the dictionary with the keys \<open>metric\<close>,
  \<open>intervention\<close>, \<open>subpop\<close> and \<open>effect\<close>. \<open>subpop\<close> is \<open>None\<close> or a
  callable; the model holds the boolean unit mask the callable returns.\<close>

record effect_dict =
  metric :: nat
  intervention :: int
  subpop :: "bool list option"
  effect :: float64

text \<open>The fields of \<open>SyntheticDataModule\<close> that the operations below read and write.
  Of a covariate object (\<open>IntCov\<close>, \<open>UnitCov\<close>) only the name is kept: its other
  attributes decide how its random columns are distributed, and the columns drawn are
  inputs of the model.\<close>

record synth_module =
  num_units :: nat
  num_timesteps :: nat
  num_interventions :: nat
  metrics :: "metric_obj list"
  effects :: "effect_dict list"
  tensor :: tensor4
  df :: dataframe
  metric_columns :: "string list list"
  int_cov :: "string list"
  unit_cov :: "string list"
  intervention_columns :: "string list list"
  mask_arr :: "int list list list list"

text \<open>\<open>self.num_metrics = len(metrics)\<close>, set by the constructor.\<close>

definition num_metrics :: "synth_module \<Rightarrow> nat" where
  "num_metrics st = length (metrics st)"

text \<open>Indexing one axis of length \<open>n\<close> with a Python integer: a negative index counts
  from the end, an index outside \<open>-n..<n\<close> raises IndexError.\<close>

definition py_index :: "nat \<Rightarrow> int \<Rightarrow> py_error + nat" where
  "py_index n i =
     (if 0 \<le> i \<and> i < int n then Inr (nat i)
      else if - int n \<le> i \<and> i < 0 then Inr (nat (i + int n))
      else Inl IndexError)"

text \<open>\<open>list.index\<close>: the first position holding the value, ValueError when there is
  none.\<close>

fun list_index :: "'a list \<Rightarrow> 'a \<Rightarrow> nat option" where
  "list_index [] x = None"
| "list_index (y # ys) x = (if y = x then Some 0 else map_option Suc (list_index ys x))"

text \<open>The units a boolean mask selects, in order.\<close>

definition selected :: "bool list \<Rightarrow> nat list" where
  "selected sub = filter (\<lambda>u. sub ! u) [0..<length sub]"

text \<open>\<open>tensor[subpopulation, :, k, mi]\<close> read: one row per selected unit, one value per
  time step.\<close>

definition slice_values :: "tensor4 \<Rightarrow> bool list \<Rightarrow> nat \<Rightarrow> nat \<Rightarrow> float64 list list" where
  "slice_values tn sub k mi = map (\<lambda>u. map (\<lambda>c. c ! k ! mi) (tn ! u)) (selected sub)"

text \<open>\<open>tensor[subpopulation, :, k, mi] += delta\<close>: \<open>delta j t\<close> is the increment for the
  \<open>j\<close>-th selected unit at time \<open>t\<close> (a scalar is the constant function).\<close>

definition iadd_cell :: "float64 list list \<Rightarrow> nat \<Rightarrow> nat \<Rightarrow> float64 \<Rightarrow> float64 list list" where
  "iadd_cell c k mi x = c[k := (c ! k)[mi := fadd (c ! k ! mi) x]]"

definition iadd_unit ::
  "nat \<Rightarrow> nat \<Rightarrow> (nat \<Rightarrow> nat \<Rightarrow> float64) \<Rightarrow> nat \<times> nat \<Rightarrow> tensor4 \<Rightarrow> tensor4" where
  "iadd_unit k mi delta ju tn =
     (case ju of (j, u) \<Rightarrow>
        tn[u := map (\<lambda>t. iadd_cell (tn ! u ! t) k mi (delta j t)) [0..<length (tn ! u)]])"

definition iadd_slice ::
  "tensor4 \<Rightarrow> bool list \<Rightarrow> nat \<Rightarrow> nat \<Rightarrow> (nat \<Rightarrow> nat \<Rightarrow> float64) \<Rightarrow> tensor4" where
  "iadd_slice tn sub k mi delta = fold (iadd_unit k mi delta) (enumerate 0 (selected sub)) tn"

text \<open>The body of the loop of \<open>add_effects\<close> for one effect. \<open>normal j t\<close> is the draw of
  \<open>np.random.normal\<close> for position \<open>(j, t)\<close> of the slice.\<close>

definition apply_effect ::
  "synth_module \<Rightarrow> effect_dict \<Rightarrow> (nat \<Rightarrow> nat \<Rightarrow> float64) \<Rightarrow> py_error + synth_module" where
  "apply_effect st e normal =
     (let effect_size = effect e;
          subpopulation =
            (case subpop e of None \<Rightarrow> replicate (length (tensor st)) True | Some s \<Rightarrow> s)
      in case list_index (map ident (metrics st)) (metric e) of
           None \<Rightarrow> Inl ValueError
         | Some metric_index \<Rightarrow>
             if length subpopulation \<noteq> length (tensor st) \<or> \<not> metric_index < num_metrics st
             then Inl IndexError
             else
               (case py_index (num_interventions st) 0 of
                  Inl err \<Rightarrow> Inl err
                | Inr zero \<Rightarrow>
                   (case py_index (num_interventions st) (intervention e) of
                      Inl err \<Rightarrow> Inl err
                    | Inr intervention_number \<Rightarrow>
                        let control =
                              fmean (concat (slice_values (tensor st) subpopulation zero metric_index));
                            c_eff_size =
                              fmean (concat (slice_values (tensor st) subpopulation
                                       intervention_number metric_index));
                            tensor1 =
                              iadd_slice (tensor st) subpopulation intervention_number metric_index
                                (\<lambda>j t. fsub (fmul effect_size control) (fsub c_eff_size control));
                            noise = (\<lambda>j t. fmul (fmul (Fl 0) control) (normal j t));
                            tensor2 =
                              iadd_slice tensor1 subpopulation intervention_number metric_index noise
                        in Inr (st\<lparr>tensor := tensor2\<rparr>))))"

text \<open>\<open>for effect in effects\<close>; \<open>normals n\<close> holds the draws of the \<open>n\<close>-th iteration.\<close>

fun effects_loop ::
  "synth_module \<Rightarrow> effect_dict list \<Rightarrow> (nat \<Rightarrow> nat \<Rightarrow> nat \<Rightarrow> float64) \<Rightarrow> nat \<Rightarrow>
   py_error + synth_module" where
  "effects_loop st [] normals n = Inr st"
| "effects_loop st (e # es) normals n =
     (case apply_effect st e (normals n) of
        Inl err \<Rightarrow> Inl err
      | Inr st' \<Rightarrow> effects_loop st' es normals (Suc n))"

text \<open>\<open>str(i)\<close> of a non-negative integer.\<close>

fun str_nat :: "nat \<Rightarrow> string" where
  "str_nat n =
     (if n < 10 then [char_of (48 + n)]
      else str_nat (n div 10) @ [char_of (48 + n mod 10)])"

text \<open>\<open>df[c] = values\<close> with an array: the column is replaced where it stands, or added
  as the last one; an array of another length than the frame raises ValueError.\<close>

definition set_col :: "dataframe \<Rightarrow> string \<Rightarrow> cell list \<Rightarrow> py_error + dataframe" where
  "set_col d c vs =
     (if length vs \<noteq> nrows d then Inl ValueError
      else Inr (d\<lparr>cols := AList.update c vs (cols d)\<rparr>))"

text \<open>\<open>tensor[:, :, i, m].flatten()\<close>: unit-major, one value per (unit, time).\<close>

definition flatten_slice :: "tensor4 \<Rightarrow> nat \<Rightarrow> nat \<Rightarrow> float64 list" where
  "flatten_slice tn i m = concat (map (\<lambda>row. map (\<lambda>c. c ! i ! m) row) tn)"

definition metric_column_name :: "metric_obj \<Rightarrow> nat \<Rightarrow> string" where
  "metric_column_name mt i =
     name mt @ (if difference_metric mt then ''_change'' else []) @ ''_'' @ str_nat i"

text \<open>The inner loop of \<open>_add_metrics\<close>, \<open>for i in range(self.num_interventions)\<close>.\<close>

fun add_metric_columns ::
  "dataframe \<Rightarrow> tensor4 \<Rightarrow> metric_obj \<Rightarrow> nat \<Rightarrow> nat list \<Rightarrow> py_error + dataframe" where
  "add_metric_columns d tn mt m [] = Inr d"
| "add_metric_columns d tn mt m (i # rest) =
     (case set_col d (metric_column_name mt i) (map FloatC (flatten_slice tn i m)) of
        Inl err \<Rightarrow> Inl err
      | Inr d' \<Rightarrow> add_metric_columns d' tn mt m rest)"

text \<open>The initial values of a difference metric are drawn once:
  \<open>np.random.random(size=(num_units, 1)) * (max_ - min_) + min_\<close>, with \<open>draw u\<close> the
  uniform draw for unit \<open>u\<close>.\<close>

definition draw_init_values :: "nat \<Rightarrow> metric_obj \<Rightarrow> (nat \<Rightarrow> float64) \<Rightarrow> metric_obj" where
  "draw_init_values U mt draw =
     (if difference_metric mt \<and> init_values mt = None
      then (case init_values_range mt of
              (min_, max_) \<Rightarrow>
                mt\<lparr>init_values :=
                     Some (map (\<lambda>u. fadd (fmul (draw u) (fsub max_ min_)) min_) [0..<U])\<rparr>)
      else mt)"

text \<open>The outer loop of \<open>_add_metrics\<close>, \<open>for m, metric in enumerate(self.metrics)\<close>:
  it yields the frame, the metrics (a difference metric with its initial values) and
  the column names of each metric.\<close>

fun add_metrics_loop ::
  "synth_module \<Rightarrow> (nat \<Rightarrow> nat \<Rightarrow> float64) \<Rightarrow> dataframe \<Rightarrow> (nat \<times> metric_obj) list \<Rightarrow>
   py_error + dataframe \<times> metric_obj list \<times> string list list" where
  "add_metrics_loop st init_draw d [] = Inr (d, [], [])"
| "add_metrics_loop st init_draw d ((m, mt) # rest) =
     (case add_metric_columns d (tensor st) mt m [0..<num_interventions st] of
        Inl err \<Rightarrow> Inl err
      | Inr d' \<Rightarrow>
          (case add_metrics_loop st init_draw d' rest of
             Inl err \<Rightarrow> Inl err
           | Inr (d'', mts, names) \<Rightarrow>
               Inr (d'', draw_init_values (num_units st) mt (init_draw m) # mts,
                    map (metric_column_name mt) [0..<num_interventions st] # names)))"

definition add_metrics :: "synth_module \<Rightarrow> (nat \<Rightarrow> nat \<Rightarrow> float64) \<Rightarrow> py_error + synth_module" where
  "add_metrics st init_draw =
     (case add_metrics_loop st init_draw (df st) (enumerate 0 (metrics st)) of
        Inl err \<Rightarrow> Inl err
      | Inr (d, mts, names) \<Rightarrow> Inr (st\<lparr>df := d, metrics := mts, metric_columns := names\<rparr>))"

text \<open>\<open>add_effects\<close>: the effects are recorded, applied one after the other, and the
  metric columns of the frame are reloaded from the tensor.\<close>

definition add_effects ::
  "synth_module \<Rightarrow> effect_dict list \<Rightarrow> (nat \<Rightarrow> nat \<Rightarrow> nat \<Rightarrow> float64) \<Rightarrow> (nat \<Rightarrow> nat \<Rightarrow> float64) \<Rightarrow>
   py_error + synth_module" where
  "add_effects st effs normals init_draw =
     (case effects_loop (st\<lparr>effects := effects st @ effs\<rparr>) effs normals 0 of
        Inl err \<Rightarrow> Inl err
      | Inr st' \<Rightarrow> add_metrics st' init_draw)"

text \<open>The slice an effect is applied to: the units of its subpopulation (all units when
  \<open>subpop\<close> is \<open>None\<close>), the intervention its number denotes, the index of its metric.\<close>

definition targets :: "synth_module \<Rightarrow> effect_dict \<Rightarrow> nat \<Rightarrow> nat \<Rightarrow> nat \<Rightarrow> bool" where
  "targets st e u i m \<longleftrightarrow>
     (case subpop e of None \<Rightarrow> True | Some s \<Rightarrow> u < length s \<and> s ! u) \<and>
     py_index (num_interventions st) (intervention e) = Inr i \<and>
     list_index (map ident (metrics st)) (metric e) = Some m"


text \<open>A small module for the concrete checks: two units, two time steps, two
  interventions, one metric \<open>sales\<close>, as \<open>generate\<close> leaves it.\<close>

definition example_tensor :: tensor4 where
  "example_tensor =
     [[[[Fl 1], [Fl 2]], [[Fl 3], [Fl 4]]],
      [[[Fl 5], [Fl 6]], [[Fl 7], [Fl 8]]]]"

definition example_module :: synth_module where
  "example_module =
     \<lparr>num_units = 2, num_timesteps = 2, num_interventions = 2,
      metrics = [\<lparr>ident = 0, name = ''sales'', metric_range = (Fl 0, Fl 10),
                  difference_metric = False,
                  init_values_range = (Fl 0, Fl 1), init_values = None, clip_range = None\<rparr>],
      effects = [],
      tensor = example_tensor,
      df = \<lparr>nrows = 4,
            cols = [(''unit_id'', [IntC 0, IntC 0, IntC 1, IntC 1]),
                    (''time'', [IntC 0, IntC 1, IntC 0, IntC 1]),
                    (''sales_0'', [FloatC (Fl 1), FloatC (Fl 3), FloatC (Fl 5), FloatC (Fl 7)]),
                    (''sales_1'', [FloatC (Fl 2), FloatC (Fl 4), FloatC (Fl 6), FloatC (Fl 8)])]\<rparr>,
      metric_columns = [[''sales_0'', ''sales_1'']],
      int_cov = [], unit_cov = [], intervention_columns = [],
      mask_arr = []\<rparr>"

text \<open>An effect of size 2 on \<open>sales\<close> under intervention 1 for the first unit only.\<close>

definition example_effect :: effect_dict where
  "example_effect = \<lparr>metric = 0, intervention = 1, subpop = Some [True, False], effect = Fl 2\<rparr>"


section \<open>Synthetic data generation: \<open>generate\<close> and \<open>sample\<close>\<close>

text \<open>Running one fallible step after another: the first error ends the run, as a raised
  exception does.\<close>

definition ebind :: "'e + 'a \<Rightarrow> ('a \<Rightarrow> 'e + 'b) \<Rightarrow> 'e + 'b" where
  "ebind r f = (case r of Inl err \<Rightarrow> Inl err | Inr x \<Rightarrow> f x)"

fun sequence_err :: "('e + 'a) list \<Rightarrow> 'e + 'a list" where
  "sequence_err [] = Inr []"
| "sequence_err (r # rs) =
     ebind r (\<lambda>x. ebind (sequence_err rs) (\<lambda>xs. Inr (x # xs)))"

fun fdiv :: "float64 \<Rightarrow> float64 \<Rightarrow> float64" where
  "fdiv (Fl a) (Fl b) = (if b = 0 then NaN else Fl (a / b))"
| "fdiv _ _ = NaN"

text \<open>\<open>ndarray.min()\<close> and \<open>ndarray.max()\<close> of a non-empty array: NaN as soon as one
  value is NaN.\<close>

fun fmin :: "float64 \<Rightarrow> float64 \<Rightarrow> float64" where
  "fmin (Fl a) (Fl b) = Fl (min a b)"
| "fmin _ _ = NaN"

fun fmax :: "float64 \<Rightarrow> float64 \<Rightarrow> float64" where
  "fmax (Fl a) (Fl b) = Fl (max a b)"
| "fmax _ _ = NaN"

definition array_min :: "float64 list \<Rightarrow> float64" where
  "array_min xs = foldl fmin (hd xs) (tl xs)"

definition array_max :: "float64 list \<Rightarrow> float64" where
  "array_max xs = foldl fmax (hd xs) (tl xs)"

text \<open>\<open>tensor[:, :, :, m]\<close>: its values, and an in-place elementwise operation on it.\<close>

definition metric_values :: "tensor4 \<Rightarrow> nat \<Rightarrow> float64 list" where
  "metric_values tn m = concat (map (\<lambda>row. concat (map (map (\<lambda>c. c ! m)) row)) tn)"

definition map_metric :: "(float64 \<Rightarrow> float64) \<Rightarrow> nat \<Rightarrow> tensor4 \<Rightarrow> tensor4" where
  "map_metric f m tn = map (map (map (\<lambda>c. c[m := f (c ! m)]))) tn"

text \<open>The end of \<open>_generate_tensor\<close>, "Adjust metric ranges", for metric \<open>m\<close>: subtract
  the minimum, divide by the maximum of what is left, scale and shift to the metric's
  range. The minimum of an array without elements raises ValueError. The quotient is
  \<open>0/0\<close>, so NaN, where the divisor is zero: after the subtraction no value is negative
  and the maximum is zero only when every value is.\<close>

definition adjust_metric :: "tensor4 \<Rightarrow> nat \<Rightarrow> float64 \<times> float64 \<Rightarrow> py_error + tensor4" where
  "adjust_metric tn m rng =
     (case rng of (min_, max_) \<Rightarrow>
        if metric_values tn m = [] then Inl ValueError
        else
          let t1 = map_metric (\<lambda>x. fsub x (array_min (metric_values tn m))) m tn;
              t2 = map_metric (\<lambda>x. fdiv x (array_max (metric_values t1 m))) m t1;
              t3 = map_metric (\<lambda>x. fmul x (fsub max_ min_)) m t2
          in Inr (map_metric (\<lambda>x. fadd x min_) m t3))"

fun adjust_loop :: "tensor4 \<Rightarrow> (nat \<times> metric_obj) list \<Rightarrow> py_error + tensor4" where
  "adjust_loop tn [] = Inr tn"
| "adjust_loop tn ((m, mt) # rest) =
     ebind (adjust_metric tn m (metric_range mt)) (\<lambda>tn'. adjust_loop tn' rest)"

text \<open>\<open>_generate_tensor\<close>: the factors are random and \<open>raw\<close> is the tensor
  \<open>tl.cp_to_tensor\<close> builds from them, an input of the model; its shape is
  \<open>(num_units, num_timesteps, num_interventions, num_metrics)\<close>.\<close>

definition has_shape :: "nat \<Rightarrow> nat \<Rightarrow> nat \<Rightarrow> nat \<Rightarrow> 'a list list list list \<Rightarrow> bool" where
  "has_shape U T I M tn \<longleftrightarrow>
     length tn = U \<and>
     list_all (\<lambda>row. length row = T \<and>
       list_all (\<lambda>cell. length cell = I \<and> list_all (\<lambda>c. length c = M) cell) row) tn"

definition cp_outcome :: "synth_module \<Rightarrow> tensor4 \<Rightarrow> bool" where
  "cp_outcome st raw \<longleftrightarrow>
     has_shape (num_units st) (num_timesteps st) (num_interventions st) (num_metrics st) raw"

definition generate_tensor :: "synth_module \<Rightarrow> tensor4 \<Rightarrow> py_error + tensor4" where
  "generate_tensor st raw = adjust_loop raw (enumerate 0 (metrics st))"

text \<open>\<open>mesh.T.reshape(-1, 2)\<close> of the mesh grid of units and time steps: the pairs
  \<open>(u, t)\<close>, unit-major.\<close>

definition combinations :: "nat \<Rightarrow> nat \<Rightarrow> (nat \<times> nat) list" where
  "combinations U T = List.product [0..<U] [0..<T]"

text \<open>The rows of a frame at the given positions, in that order.\<close>

definition take_rows :: "dataframe \<Rightarrow> nat list \<Rightarrow> dataframe" where
  "take_rows d ks =
     \<lparr>nrows = length ks, cols = map (\<lambda>(c, vs). (c, map (\<lambda>k. vs ! k) ks)) (cols d)\<rparr>"

text \<open>\<open>df.sort_values(["unit_id", "time"])\<close>. The two key columns hold integers (that
  is what \<open>_init_df\<close> stores; \<open>freq\<close> is \<open>None\<close>, the constructor's default); a
  missing key column raises KeyError. The sort is stable.\<close>

fun int_of_cell :: "cell \<Rightarrow> int option" where
  "int_of_cell (IntC n) = Some n"
| "int_of_cell _ = None"

definition sort_values :: "dataframe \<Rightarrow> py_error + dataframe" where
  "sort_values d =
     (case (map_of (cols d) ''unit_id'', map_of (cols d) ''time'') of
        (Some us, Some ts) \<Rightarrow>
          if list_all (\<lambda>k. int_of_cell (us ! k) \<noteq> None \<and> int_of_cell (ts ! k) \<noteq> None)
               [0..<nrows d]
          then Inr (take_rows d
                 (sort_key (\<lambda>k. (the (int_of_cell (us ! k)), the (int_of_cell (ts ! k))))
                    [0..<nrows d]))
          else Inl TypeError
      | _ \<Rightarrow> Inl KeyError)"

text \<open>\<open>_init_df\<close>: one row per (unit, time), sorted by unit and time.\<close>

definition init_df :: "synth_module \<Rightarrow> py_error + synth_module" where
  "init_df st =
     (let combos = combinations (num_units st) (num_timesteps st);
          d = \<lparr>nrows = length combos,
               cols = [(''unit_id'', map (\<lambda>ut. IntC (int (fst ut))) combos),
                       (''time'', map (\<lambda>ut. IntC (int (snd ut))) combos)]\<rparr>
      in ebind (sort_values d) (\<lambda>d'. Inr (st\<lparr>df := d'\<rparr>)))"

text \<open>\<open>_add_intervention_covs\<close>, as far as the frame goes: for covariate \<open>c\<close> and
  intervention \<open>i\<close> a column \<open>name_i\<close> of random values, \<open>int_draw c i\<close>, is stored
  and its name recorded. The assignment of divisions to interventions, its labels and the
  list of actions touch neither the frame's rows nor the tensor and are left out.\<close>

definition cov_column_name :: "string \<Rightarrow> nat \<Rightarrow> string" where
  "cov_column_name cov i = cov @ ''_'' @ str_nat i"

fun add_cov_columns ::
  "dataframe \<Rightarrow> string \<Rightarrow> (nat \<Rightarrow> cell list) \<Rightarrow> nat list \<Rightarrow> py_error + dataframe" where
  "add_cov_columns d cov draw [] = Inr d"
| "add_cov_columns d cov draw (i # rest) =
     ebind (set_col d (cov_column_name cov i) (draw i))
       (\<lambda>d'. add_cov_columns d' cov draw rest)"

fun add_int_covs_loop ::
  "nat \<Rightarrow> (nat \<Rightarrow> nat \<Rightarrow> cell list) \<Rightarrow> dataframe \<Rightarrow> (nat \<times> string) list \<Rightarrow>
   py_error + dataframe" where
  "add_int_covs_loop I int_draw d [] = Inr d"
| "add_int_covs_loop I int_draw d ((c, cov) # rest) =
     ebind (add_cov_columns d cov (int_draw c) [0..<I])
       (\<lambda>d'. add_int_covs_loop I int_draw d' rest)"

definition add_intervention_covs ::
  "synth_module \<Rightarrow> (nat \<Rightarrow> nat \<Rightarrow> cell list) \<Rightarrow> py_error + synth_module" where
  "add_intervention_covs st int_draw =
     ebind (add_int_covs_loop (num_interventions st) int_draw (df st) (enumerate 0 (int_cov st)))
       (\<lambda>d. Inr (st\<lparr>df := d,
                     intervention_columns :=
                       map (\<lambda>cov. map (cov_column_name cov) [0..<num_interventions st])
                         (int_cov st)\<rparr>))"

text \<open>\<open>_add_unit_covs\<close>: \<open>df[name] = df["unit_id"].map(dict_labels)\<close>, where
  \<open>unit_draw c u\<close> is the label covariate \<open>c\<close> gives unit \<open>u\<close>; a unit id without a
  label maps to NaN.\<close>

fun add_unit_covs_loop ::
  "nat \<Rightarrow> (nat \<Rightarrow> nat \<Rightarrow> cell) \<Rightarrow> dataframe \<Rightarrow> (nat \<times> string) list \<Rightarrow> py_error + dataframe" where
  "add_unit_covs_loop U unit_draw d [] = Inr d"
| "add_unit_covs_loop U unit_draw d ((c, cov) # rest) =
     (case map_of (cols d) ''unit_id'' of
        None \<Rightarrow> Inl KeyError
      | Some us \<Rightarrow>
          ebind (set_col d cov
                   (map (\<lambda>x. case x of
                               IntC u \<Rightarrow> if 0 \<le> u \<and> u < int U then unit_draw c (nat u)
                                          else FloatC NaN
                             | _ \<Rightarrow> FloatC NaN) us))
            (\<lambda>d'. add_unit_covs_loop U unit_draw d' rest))"

definition add_unit_covs ::
  "synth_module \<Rightarrow> (nat \<Rightarrow> nat \<Rightarrow> cell) \<Rightarrow> py_error + synth_module" where
  "add_unit_covs st unit_draw =
     ebind (add_unit_covs_loop (num_units st) unit_draw (df st) (enumerate 0 (unit_cov st)))
       (\<lambda>d. Inr (st\<lparr>df := d\<rparr>))"

text \<open>\<open>generate\<close>. The random draws are inputs: \<open>raw\<close> (the tensor of the factors),
  \<open>int_draw\<close> and \<open>unit_draw\<close> (the covariate columns), \<open>init_draw\<close> (the initial
  values of difference metrics).\<close>

definition generate ::
  "synth_module \<Rightarrow> tensor4 \<Rightarrow> (nat \<Rightarrow> nat \<Rightarrow> cell list) \<Rightarrow> (nat \<Rightarrow> nat \<Rightarrow> cell) \<Rightarrow>
   (nat \<Rightarrow> nat \<Rightarrow> float64) \<Rightarrow> py_error + synth_module" where
  "generate st raw int_draw unit_draw init_draw =
     ebind (generate_tensor st raw) (\<lambda>tn.
     ebind (init_df (st\<lparr>tensor := tn\<rparr>)) (\<lambda>st1.
     ebind (if int_cov st1 \<noteq> [] then add_intervention_covs st1 int_draw else Inr st1) (\<lambda>st2.
     ebind (if unit_cov st2 \<noteq> [] then add_unit_covs st2 unit_draw else Inr st2) (\<lambda>st3.
     add_metrics st3 init_draw))))"

text \<open>The column of a name, if the frame has one.\<close>

abbreviation column :: "dataframe \<Rightarrow> string \<Rightarrow> cell list option" where
  "column d c \<equiv> map_of (cols d) c"

text \<open>\<open>df[names].values[np.arange(n), ia]\<close>: for row \<open>k\<close> the cell of the column
  \<open>names[ia[k]]\<close>. A missing column raises KeyError, an assignment outside the
  columns IndexError.\<close>

definition get_col :: "dataframe \<Rightarrow> string \<Rightarrow> py_error + cell list" where
  "get_col d c = (case map_of (cols d) c of None \<Rightarrow> Inl KeyError | Some vs \<Rightarrow> Inr vs)"

definition select_by_assignment ::
  "dataframe \<Rightarrow> string list \<Rightarrow> nat \<Rightarrow> int list \<Rightarrow> py_error + cell list" where
  "select_by_assignment d names n ia =
     ebind (sequence_err (map (get_col d) names)) (\<lambda>columns.
       if n \<noteq> length ia then Inl IndexError
       else sequence_err
              (map (\<lambda>k. ebind (py_index (length names) (ia ! k))
                         (\<lambda>j. if k < nrows d then Inr (columns ! j ! k) else Inl IndexError))
                 [0..<n]))"

text \<open>The numeric value of a cell; a string has none.\<close>

fun float_of_cell :: "cell \<Rightarrow> py_error + float64" where
  "float_of_cell (IntC n) = Inr (Fl (of_int n))"
| "float_of_cell (FloatC x) = Inr x"
| "float_of_cell (StrC s) = Inl TypeError"

text \<open>\<open>cumsum\<close> along one row.\<close>

fun cumsum_from :: "float64 \<Rightarrow> float64 list \<Rightarrow> float64 list" where
  "cumsum_from acc [] = []"
| "cumsum_from acc (x # xs) = fadd acc x # cumsum_from (fadd acc x) xs"

fun cumsum :: "float64 list \<Rightarrow> float64 list" where
  "cumsum [] = []"
| "cumsum (x # xs) = x # cumsum_from x xs"

text \<open>For a difference metric: \<open>reshape([num_units, num_timesteps])\<close>,
  \<open>cumsum(axis=1) + init_values\<close>, \<open>flatten()\<close>. \<open>init_values\<close> holds one value per
  unit once \<open>_add_metrics\<close> has run, and is \<open>None\<close> before.\<close>

definition cumulate ::
  "nat \<Rightarrow> nat \<Rightarrow> float64 list option \<Rightarrow> float64 list \<Rightarrow> py_error + float64 list" where
  "cumulate U T init chosen =
     (if length chosen \<noteq> U * T then Inl ValueError
      else case init of
             None \<Rightarrow> Inl TypeError
           | Some iv \<Rightarrow>
               if length iv \<noteq> U then Inl ValueError
               else Inr (concat (map (\<lambda>u. map (\<lambda>x. fadd x (iv ! u))
                                             (cumsum (take T (drop (u * T) chosen))))
                                    [0..<U])))"

text \<open>\<open>np.clip(x, min_, max_)\<close>.\<close>

definition fclip :: "float64 \<Rightarrow> float64 \<Rightarrow> float64 \<Rightarrow> float64" where
  "fclip x lo hi = fmin (fmax x lo) hi"

text \<open>The body of the loop over \<open>self.metric_columns\<close> up to
  \<open>chosen_metric[observation_mask.flatten()] = np.nan\<close>.\<close>

definition choose_metric ::
  "synth_module \<Rightarrow> dataframe \<Rightarrow> nat \<Rightarrow> string list \<Rightarrow> int list \<Rightarrow> bool list \<Rightarrow>
   py_error + float64 list" where
  "choose_metric st df_copy i metric_list ia mask_flat =
     ebind (sort_values df_copy) (\<lambda>sorted_df.
     ebind (select_by_assignment sorted_df metric_list (nrows (df st)) ia) (\<lambda>cells.
     ebind (sequence_err (map float_of_cell cells)) (\<lambda>chosen.
       if \<not> i < length (metrics st) then Inl IndexError
       else
         ebind (if difference_metric (metrics st ! i)
                then cumulate (num_units st) (num_timesteps st)
                       (init_values (metrics st ! i)) chosen
                else Inr chosen) (\<lambda>chosen1.
           let chosen2 =
                 (case clip_range (metrics st ! i) of
                    None \<Rightarrow> chosen1
                  | Some (min_, max_) \<Rightarrow> map (\<lambda>x. fclip x min_ max_) chosen1)
           in if length mask_flat \<noteq> length chosen2 then Inl IndexError
              else Inr (map (\<lambda>k. if mask_flat ! k then NaN else chosen2 ! k)
                          [0..<length chosen2])))))"

text \<open>\<open>df.drop(names, axis="columns")\<close>: KeyError when a name is not a column.\<close>

definition drop_cols :: "dataframe \<Rightarrow> string list \<Rightarrow> py_error + dataframe" where
  "drop_cols d names =
     (if list_all (\<lambda>c. map_of (cols d) c \<noteq> None) names
      then Inr (d\<lparr>cols := filter (\<lambda>cv. fst cv \<notin> set names) (cols d)\<rparr>)
      else Inl KeyError)"

fun sample_metrics_loop ::
  "synth_module \<Rightarrow> int list \<Rightarrow> bool list \<Rightarrow> dataframe \<Rightarrow> (nat \<times> string list) list \<Rightarrow>
   py_error + dataframe" where
  "sample_metrics_loop st ia mask_flat d [] = Inr d"
| "sample_metrics_loop st ia mask_flat d ((i, metric_list) # rest) =
     ebind (choose_metric st d i metric_list ia mask_flat) (\<lambda>chosen_metric.
     ebind (set_col d (name (metrics st ! i)) (map FloatC chosen_metric)) (\<lambda>d1.
     ebind (drop_cols d1 metric_list) (\<lambda>d2.
     sample_metrics_loop st ia mask_flat d2 rest)))"

text \<open>The loop over \<open>self.intervention_columns\<close>.\<close>

fun sample_covs_loop ::
  "synth_module \<Rightarrow> int list \<Rightarrow> dataframe \<Rightarrow> (nat \<times> string list) list \<Rightarrow> py_error + dataframe" where
  "sample_covs_loop st ia d [] = Inr d"
| "sample_covs_loop st ia d ((i, intervention_list) # rest) =
     ebind (select_by_assignment d intervention_list (nrows (df st)) ia) (\<lambda>chosen_cov.
       if \<not> i < length (int_cov st) then Inl IndexError
       else
         ebind (set_col d (int_cov st ! i) chosen_cov) (\<lambda>d1.
         ebind (drop_cols d1 intervention_list) (\<lambda>d2.
         sample_covs_loop st ia d2 rest)))"

text \<open>\<open>df.dropna()\<close>: the rows without a NaN cell.\<close>

fun is_nan_cell :: "cell \<Rightarrow> bool" where
  "is_nan_cell (FloatC NaN) = True"
| "is_nan_cell _ = False"

definition kept_rows :: "dataframe \<Rightarrow> nat list" where
  "kept_rows d =
     filter (\<lambda>k. list_all (\<lambda>cv. \<not> is_nan_cell (snd cv ! k)) (cols d)) [0..<nrows d]"

definition dropna :: "dataframe \<Rightarrow> dataframe" where
  "dropna d = take_rows d (kept_rows d)"

text \<open>\<open>self.mask\<close>: a zero array of the tensor's shape with ones at
  \<open>[u, t, idx[u, t], :]\<close>, where \<open>idx\<close> holds the positions the assignments denote,
  flattened.\<close>

definition selection_mask :: "synth_module \<Rightarrow> nat list \<Rightarrow> int list list list list" where
  "selection_mask st idx =
     map (\<lambda>u. map (\<lambda>t. map (\<lambda>i. map (\<lambda>m. if i = idx ! (u * num_timesteps st + t) then 1 else 0)
                                    [0..<num_metrics st])
                         [0..<num_interventions st])
                [0..<num_timesteps st])
       [0..<num_units st]"

text \<open>\<open>subsampled_tensor\<close>: \<open>self.tensor[combinations[:, 0], combinations[:, 1],
  intervention_assignments, :]\<close> has one row of metric values per (unit, time) pair;
  \<open>reshape\<close> puts row \<open>u * num_timesteps + t\<close> at \<open>[u, t]\<close>;
  \<open>subsampled_tensor[observation_mask] = np.nan\<close> overwrites the rows of the masked
  pairs.\<close>

definition subsample_tensor ::
  "synth_module \<Rightarrow> nat list \<Rightarrow> bool list list \<Rightarrow> float64 list list list" where
  "subsample_tensor st idx observation_mask =
     (let U = num_units st; T = num_timesteps st;
          combos = combinations U T;
          picked =
            map (\<lambda>k. tensor st ! fst (combos ! k) ! snd (combos ! k) ! (idx ! k))
              [0..<length combos];
          reshaped = map (\<lambda>u. map (\<lambda>t. picked ! (u * T + t)) [0..<T]) [0..<U]
      in map (\<lambda>u. map (\<lambda>t. if observation_mask ! u ! t
                             then map (\<lambda>x. NaN) (reshaped ! u ! t)
                             else reshaped ! u ! t)
                    [0..<T])
           [0..<U])"

text \<open>The names of a frame's columns, its rows as pairs of the key cells, and whether a
  cell of it is NaN.\<close>

definition column_names :: "dataframe \<Rightarrow> string list" where
  "column_names d = map fst (cols d)"

definition row_keys :: "dataframe \<Rightarrow> (cell \<times> cell) list" where
  "row_keys d =
     (case (column d ''unit_id'', column d ''time'') of
        (Some us, Some ts) \<Rightarrow> zip us ts
      | _ \<Rightarrow> [])"

definition has_nan :: "dataframe \<Rightarrow> bool" where
  "has_nan d = list_ex (\<lambda>cv. list_ex is_nan_cell (snd cv)) (cols d)"

text \<open>Every column name \<open>generate\<close> and \<open>sample\<close> use for a module.\<close>

definition all_names :: "synth_module \<Rightarrow> string list" where
  "all_names st =
     ''unit_id'' # ''time'' # ''intervention'' #
     map name (metrics st) @
     concat (map (\<lambda>mt. map (metric_column_name mt) [0..<num_interventions st]) (metrics st)) @
     int_cov st @
     concat (map (\<lambda>cov. map (cov_column_name cov) [0..<num_interventions st]) (int_cov st)) @
     unit_cov st"

text \<open>The initial values of the metrics before \<open>generate\<close>: none yet (the
  constructor of \<open>Metric\<close> sets \<open>None\<close>), or one per unit, left by an earlier call.\<close>

definition init_values_ok :: "synth_module \<Rightarrow> bool" where
  "init_values_ok st \<longleftrightarrow>
     list_all (\<lambda>mt. case init_values mt of None \<Rightarrow> True | Some iv \<Rightarrow> length iv = num_units st)
       (metrics st)"

text \<open>\<open>sample\<close>. \<open>intervention_assignments\<close> and \<open>observation_mask\<close> are arrays of
  shape \<open>(num_units, num_timesteps)\<close>, given as lists of rows. Which exception a call
  with arrays of another shape ends in is not part of any property below.\<close>

definition mask_shape :: "nat \<Rightarrow> nat \<Rightarrow> 'a list list \<Rightarrow> bool" where
  "mask_shape U T rows \<longleftrightarrow> length rows = U \<and> list_all (\<lambda>row. length row = T) rows"

text \<open>An array of assignments for a module: of shape \<open>(num_units, num_timesteps)\<close>, each
  entry an index of an intervention (a negative one counts from the end). A tensor
  without a NaN entry.\<close>

definition assignments_ok :: "synth_module \<Rightarrow> int list list \<Rightarrow> bool" where
  "assignments_ok st rows \<longleftrightarrow>
     mask_shape (num_units st) (num_timesteps st) rows \<and>
     list_all (list_all (\<lambda>a. - int (num_interventions st) \<le> a \<and> a < int (num_interventions st)))
       rows"

definition nan_free :: "tensor4 \<Rightarrow> bool" where
  "nan_free tn \<longleftrightarrow> list_all (list_all (list_all (list_all (\<lambda>x. x \<noteq> NaN)))) tn"

definition sample ::
  "synth_module \<Rightarrow> int list list \<Rightarrow> bool list list \<Rightarrow>
   py_error + float64 list list list \<times> dataframe \<times> synth_module" where
  "sample st intervention_assignments observation_mask =
     (let U = num_units st; T = num_timesteps st;
          ia = concat intervention_assignments;
          combos = combinations U T
      in if length ia \<noteq> length combos then Inl IndexError
         else
           ebind (sequence_err (map (py_index (num_interventions st)) ia)) (\<lambda>idx.
             if \<not> mask_shape U T observation_mask then Inl IndexError
             else
               ebind (set_col (df st) ''intervention'' (map IntC ia)) (\<lambda>d0.
               ebind (sample_metrics_loop st ia (concat observation_mask) d0
                        (enumerate 0 (metric_columns st))) (\<lambda>d1.
               ebind (if int_cov st \<noteq> []
                      then sample_covs_loop st ia d1 (enumerate 0 (intervention_columns st))
                      else Inr d1) (\<lambda>d2.
               Inr (subsample_tensor st idx observation_mask, dropna d2,
                    st\<lparr>mask_arr := selection_mask st idx\<rparr>))))))"

text \<open>Modules for the concrete checks, as the constructor leaves them. A store panel:
  two units, two time steps, two interventions, the metrics \<open>sales\<close> and \<open>stock\<close>
  (a difference metric, clipped to \<open>[0, 1]\<close>), an intervention covariate \<open>price\<close>
  and a unit covariate \<open>region\<close>; \<open>store_raw\<close> is a tensor of its shape.\<close>

definition store_module :: synth_module where
  "store_module =
     \<lparr>num_units = 2, num_timesteps = 2, num_interventions = 2,
      metrics = [\<lparr>ident = 0, name = ''sales'', metric_range = (Fl 0, Fl 10),
                  difference_metric = False,
                  init_values_range = (Fl 0, Fl 1), init_values = None, clip_range = None\<rparr>,
                 \<lparr>ident = 1, name = ''stock'', metric_range = (Fl 0, Fl 1),
                  difference_metric = True,
                  init_values_range = (Fl 0, Fl 1), init_values = None,
                  clip_range = Some (Fl 0, Fl 1)\<rparr>],
      effects = [], tensor = [], df = \<lparr>nrows = 0, cols = []\<rparr>, metric_columns = [],
      int_cov = [''price''], unit_cov = [''region''], intervention_columns = [],
      mask_arr = []\<rparr>"

definition store_raw :: tensor4 where
  "store_raw =
     [[[[Fl 1, Fl 1], [Fl 2, Fl 2]], [[Fl 3, Fl 5], [Fl 4, Fl 3]]],
      [[[Fl 5, Fl 1], [Fl 6, Fl 7]], [[Fl 7, Fl 2], [Fl 8, Fl 0]]]]"

text \<open>A module with one unit, one time step and one intervention; and a module
  whose first metric is named like the column \<open>_add_metrics\<close> stores for intervention 0
  of its second metric.\<close>

definition single_cell_module :: synth_module where
  "single_cell_module =
     \<lparr>num_units = 1, num_timesteps = 1, num_interventions = 1,
      metrics = [\<lparr>ident = 0, name = ''sales'', metric_range = (Fl 0, Fl 10),
                  difference_metric = False,
                  init_values_range = (Fl 0, Fl 1), init_values = None, clip_range = None\<rparr>],
      effects = [], tensor = [], df = \<lparr>nrows = 0, cols = []\<rparr>, metric_columns = [],
      int_cov = [], unit_cov = [], intervention_columns = [],
      mask_arr = []\<rparr>"

definition clash_module :: synth_module where
  "clash_module =
     \<lparr>num_units = 1, num_timesteps = 2, num_interventions = 2,
      metrics = [\<lparr>ident = 0, name = ''sales_0'', metric_range = (Fl 0, Fl 10),
                  difference_metric = False,
                  init_values_range = (Fl 0, Fl 1), init_values = None, clip_range = None\<rparr>,
                 \<lparr>ident = 1, name = ''sales'', metric_range = (Fl 0, Fl 10),
                  difference_metric = False,
                  init_values_range = (Fl 0, Fl 1), init_values = None, clip_range = None\<rparr>],
      effects = [], tensor = [], df = \<lparr>nrows = 0, cols = []\<rparr>, metric_columns = [],
      int_cov = [], unit_cov = [], intervention_columns = [],
      mask_arr = []\<rparr>"


section \<open>The estimator: splitting a candidate pool\<close>

text \<open>Modelled from the spec: \<open>SNN._split\<close> (\<open>algorithms/snn.py\<close>) is not among the
  sources; only its test is. The spec: for an ordered sequence of length \<open>N\<close> split
  into \<open>k\<close> groups, \<open>N mod k\<close> groups get a size one larger than the remaining groups,
  the larger groups come first, and the groups are contiguous. \<open>split_sizes\<close> lists the
  group sizes in order and \<open>chop\<close> cuts the sequence into consecutive pieces of these
  sizes.\<close>

definition split_sizes :: "nat \<Rightarrow> nat \<Rightarrow> nat list" where
  "split_sizes N k = replicate (N mod k) (N div k + 1) @ replicate (k - N mod k) (N div k)"

fun chop :: "nat list \<Rightarrow> 'a list \<Rightarrow> 'a list list" where
  "chop [] xs = []"
| "chop (n # ns) xs = take n xs # chop ns (drop n xs)"

definition split_seq :: "'a list \<Rightarrow> nat \<Rightarrow> 'a list list" where
  "split_seq seq k = chop (split_sizes (length seq) k) seq"


section \<open>The estimator: anchor search and its cache\<close>
















lemma drop_take_append_drop:
  assumes "a \<le> b"
  shows "drop a (take b ys) @ drop b ys = drop a ys"
proof (cases "b \<le> length ys")
  case True
  have "drop a ys = drop a (take b ys @ drop b ys)" by simp
  also have "\<dots> = drop a (take b ys) @ drop (a - length (take b ys)) (drop b ys)"
    by (rule drop_append)
  also have "a - length (take b ys) = 0" using assms True by simp
  finally show ?thesis by simp
next
  case False
  then show ?thesis by simp
qed

lemma py_slice_append:
  assumes "a \<le> b" and "b \<le> c"
  shows "py_slice xs a b @ py_slice xs b c = py_slice xs a c"
proof -
  have "take b xs = take b (take c xs)" using assms(2) by (simp add: min_absorb1)
  then show ?thesis
    unfolding py_slice_def using drop_take_append_drop [OF assms(1), of "take c xs"] by simp
qed

lemma length_subgroups_loop: "length (subgroups_loop xs start inds) = length inds"
  by (induction inds arbitrary: start) simp_all

lemma concat_subgroups_loop:
  "sorted (start # inds) \<Longrightarrow> inds \<noteq> [] \<Longrightarrow>
   concat (subgroups_loop xs start inds) = py_slice xs start (last inds)"
proof (induction inds arbitrary: start)
  case Nil
  then show ?case by simp
next
  case (Cons ind inds)
  show ?case
  proof (cases "inds = []")
    case True
    then show ?thesis by simp
  next
    case False
    from Cons.prems have le: "start \<le> ind" and srt: "sorted (ind # inds)" by simp_all
    from srt False have "ind \<le> last inds" by simp
    have "concat (subgroups_loop xs ind inds) = py_slice xs ind (last inds)"
      using Cons.IH [OF srt False] .
    moreover have "py_slice xs start ind @ py_slice xs ind (last inds) = py_slice xs start (last inds)"
      using le \<open>ind \<le> last inds\<close> by (rule py_slice_append)
    ultimately show ?thesis using False by simp
  qed
qed


lemma subgroups_loop_nonempty:
  "sorted_wrt (<) (start # inds) \<Longrightarrow> list_all (\<lambda>i. i \<le> length xs) inds \<Longrightarrow>
   list_all (\<lambda>g. g \<noteq> []) (subgroups_loop xs start inds)"
  by (induction inds arbitrary: start) (auto simp: py_slice_def)


lemma indices_strictly_sorted:
  assumes "choice_outcome pop k drawn" and "pop < n"
  shows "sorted_wrt (<) (0 # sort (map (\<lambda>i. i + 1) drawn) @ [n])"
proof -
  let ?ix = "sort (map (\<lambda>i. i + 1) drawn)"
  from assms(1) have d: "distinct drawn" and b: "\<forall>i \<in> set drawn. i < pop"
    by (simp_all add: choice_outcome_def list_all_iff)
  have "distinct (map (\<lambda>i. i + 1) drawn)"
    using d by (simp add: distinct_map inj_on_def)
  then have "sorted_wrt (<) ?ix"
    by (simp add: strict_sorted_iff)
  moreover have "\<forall>j \<in> set ?ix. 0 < j \<and> j < n"
    using b assms(2) by auto
  moreover have "0 < n" using assms(2) by simp
  ultimately show ?thesis
    by (auto simp: sorted_wrt_append)
qed

text \<open>C9: for \<open>1 \<le> divisions \<le> len(categories)\<close> the call returns, with exactly
  \<open>divisions\<close> groups, none of them empty, whose concatenation is the shuffled list and
  so a rearrangement of the categories: each category lands in exactly one group.\<close>

theorem split_categories_partition:
  assumes "1 \<le> divisions" and "divisions \<le> int (length categories)"
    and "shuffle_outcome categories cat_shuf"
    and "choice_outcome (length categories - 1) (nat (divisions - 1)) drawn"
  shows "\<exists>groups. split_categories categories divisions cat_shuf drawn = Inr groups \<and>
           int (length groups) = divisions \<and>
           list_all (\<lambda>g. g \<noteq> []) groups \<and>
           concat groups = cat_shuf \<and>
           mset (concat groups) = mset categories"
proof -
  let ?n = "length categories"
  let ?ix = "sort (map (\<lambda>i. i + 1) drawn)"
  let ?groups = "subgroups_loop cat_shuf 0 (?ix @ [?n])"
  have npos: "0 < ?n" using assms(1,2) by (cases categories) simp_all
  have len: "length cat_shuf = ?n"
    using assms(3) unfolding shuffle_outcome_def by (metis size_mset)
  have run: "split_categories categories divisions cat_shuf drawn = Inr ?groups"
    using assms(1,2) by (simp add: split_categories_def Let_def)
  have strict: "sorted_wrt (<) (0 # ?ix @ [?n])"
    using assms(4) npos by (intro indices_strictly_sorted [where pop = "?n - 1"]) simp_all
  have "length ?ix = nat (divisions - 1)"
    using assms(4) by (simp add: choice_outcome_def)
  then have count: "int (length ?groups) = divisions"
    using assms(1) by (simp add: length_subgroups_loop)
  have bound: "list_all (\<lambda>i. i \<le> length cat_shuf) (?ix @ [?n])"
    using strict len by (auto simp: list_all_iff sorted_wrt_append)
  have nonempty: "list_all (\<lambda>g. g \<noteq> []) ?groups"
    using strict bound by (rule subgroups_loop_nonempty)
  have "sorted (0 # ?ix @ [?n])"
    using strict by (rule strict_sorted_imp_sorted)
  then have "concat ?groups = py_slice cat_shuf 0 (last (?ix @ [?n]))"
    by (intro concat_subgroups_loop) simp_all
  then have cat: "concat ?groups = cat_shuf"
    using len by (simp add: py_slice_def)
  have "mset (concat ?groups) = mset categories"
    using cat assms(3) by (simp add: shuffle_outcome_def)
  with run count nonempty cat show ?thesis by blast
qed

theorem split_categories_partition_witness:
  "shuffle_outcome [10, 20, 30, 40 :: nat] [30, 10, 40, 20] \<and>
   choice_outcome 3 1 [1] \<and>
   split_categories [10, 20, 30, 40 :: nat] 2 [30, 10, 40, 20] [1] = Inr [[30, 10], [40, 20]] \<and>
   (\<exists>groups. split_categories [10, 20, 30, 40 :: nat] 2 [30, 10, 40, 20] [1] = Inr groups \<and>
      int (length groups) = 2 \<and> list_all (\<lambda>g. g \<noteq> []) groups \<and>
      concat groups = [30, 10, 40, 20] \<and> mset (concat groups) = mset [10, 20, 30, 40])"
proof -
  have s: "shuffle_outcome [10, 20, 30, 40 :: nat] [30, 10, 40, 20]"
    by (simp add: shuffle_outcome_def)
  have c': "choice_outcome 3 1 [1]"
    by (simp add: choice_outcome_def)
  have c: "choice_outcome (length [10, 20, 30, 40 :: nat] - 1) (nat (2 - 1)) [1]"
    by (simp add: choice_outcome_def)
  have v: "split_categories [10, 20, 30, 40 :: nat] 2 [30, 10, 40, 20] [1] = Inr [[30, 10], [40, 20]]"
    by (simp add: split_categories_def py_slice_def)
  from split_categories_partition [of 2 "[10, 20, 30, 40 :: nat]" "[30, 10, 40, 20]" "[1]", OF _ _ s c]
  have "\<exists>groups. split_categories [10, 20, 30, 40 :: nat] 2 [30, 10, 40, 20] [1] = Inr groups \<and>
      int (length groups) = 2 \<and> list_all (\<lambda>g. g \<noteq> []) groups \<and>
      concat groups = [30, 10, 40, 20] \<and> mset (concat groups) = mset [10, 20, 30, 40]"
    by simp
  with s c' v show ?thesis by blast
qed

subsection \<open>The frame of \<open>add_effects\<close>\<close>

lemma iadd_cell_frame:
  assumes "i \<noteq> k \<or> m \<noteq> mi"
  shows "iadd_cell c k mi x ! i ! m = c ! i ! m"
proof (cases "i = k")
  case False
  then show ?thesis by (simp add: iadd_cell_def)
next
  case True
  with assms have neq: "m \<noteq> mi" by simp
  show ?thesis
  proof (cases "k < length c")
    case True
    with \<open>i = k\<close> neq show ?thesis by (simp add: iadd_cell_def)
  next
    case False
    then show ?thesis by (simp add: iadd_cell_def list_update_beyond)
  qed
qed

lemma iadd_unit_row_length:
  "length (iadd_unit k mi delta ju tn ! u') = length (tn ! u')"
proof (cases ju)
  case (Pair j u)
  show ?thesis
  proof (cases "u' = u \<and> u < length tn")
    case True
    then show ?thesis by (simp add: iadd_unit_def Pair)
  next
    case False
    then show ?thesis
      by (cases "u' = u") (simp_all add: iadd_unit_def Pair list_update_beyond)
  qed
qed

lemma iadd_unit_length: "length (iadd_unit k mi delta ju tn) = length tn"
  by (cases ju) (simp add: iadd_unit_def)

lemma iadd_unit_frame:
  assumes "t < length (tn ! u')" and "u' \<noteq> snd ju \<or> i \<noteq> k \<or> m \<noteq> mi"
  shows "iadd_unit k mi delta ju tn ! u' ! t ! i ! m = tn ! u' ! t ! i ! m"
proof (cases ju)
  case (Pair j u)
  show ?thesis
  proof (cases "u' = u \<and> u < length tn")
    case True
    with assms Pair have "i \<noteq> k \<or> m \<noteq> mi" by simp
    then show ?thesis
      using True assms(1) by (simp add: iadd_unit_def Pair iadd_cell_frame)
  next
    case False
    then show ?thesis
      by (cases "u' = u") (simp_all add: iadd_unit_def Pair list_update_beyond)
  qed
qed

lemma fold_iadd_unit_row_length:
  "length (fold (iadd_unit k mi delta) jus tn ! u') = length (tn ! u')"
  by (induction jus arbitrary: tn) (simp_all add: iadd_unit_row_length)

lemma fold_iadd_unit_length: "length (fold (iadd_unit k mi delta) jus tn) = length tn"
  by (induction jus arbitrary: tn) (simp_all add: iadd_unit_length)

lemma fold_iadd_unit_frame:
  assumes "t < length (tn ! u')" and "u' \<notin> snd ` set jus \<or> i \<noteq> k \<or> m \<noteq> mi"
  shows "fold (iadd_unit k mi delta) jus tn ! u' ! t ! i ! m = tn ! u' ! t ! i ! m"
  using assms
proof (induction jus arbitrary: tn)
  case Nil
  then show ?case by simp
next
  case (Cons ju jus)
  let ?tn = "iadd_unit k mi delta ju tn"
  have len: "t < length (?tn ! u')"
    using Cons.prems(1) by (simp add: iadd_unit_row_length)
  have out: "u' \<notin> snd ` set jus \<or> i \<noteq> k \<or> m \<noteq> mi"
    using Cons.prems(2) by auto
  have step: "?tn ! u' ! t ! i ! m = tn ! u' ! t ! i ! m"
    using Cons.prems by (intro iadd_unit_frame) auto
  show ?case
    using Cons.IH [OF len out] step by simp
qed

lemma set_selected: "set (selected sub) = {u. u < length sub \<and> sub ! u}"
  by (auto simp: selected_def)

lemma iadd_slice_frame:
  assumes "t < length (tn ! u)" and "\<not> (u < length sub \<and> sub ! u) \<or> i \<noteq> k \<or> m \<noteq> mi"
  shows "iadd_slice tn sub k mi delta ! u ! t ! i ! m = tn ! u ! t ! i ! m"
proof -
  have "snd ` set (enumerate 0 (selected sub)) = set (selected sub)"
    by (metis map_snd_enumerate set_map)
  then have "u \<notin> snd ` set (enumerate 0 (selected sub)) \<or> i \<noteq> k \<or> m \<noteq> mi"
    using assms(2) by (auto simp: set_selected)
  then show ?thesis
    unfolding iadd_slice_def using assms(1) by (intro fold_iadd_unit_frame)
qed

lemma iadd_slice_row_length: "length (iadd_slice tn sub k mi delta ! u) = length (tn ! u)"
  by (simp add: iadd_slice_def fold_iadd_unit_row_length)

lemma iadd_slice_length: "length (iadd_slice tn sub k mi delta) = length tn"
  by (simp add: iadd_slice_def fold_iadd_unit_length)


lemma apply_effect_Inr:
  assumes "apply_effect st e normal = Inr st'"
  obtains mi k d1 d2 where
    "list_index (map ident (metrics st)) (metric e) = Some mi"
    "py_index (num_interventions st) (intervention e) = Inr k"
    "length (case subpop e of None \<Rightarrow> replicate (length (tensor st)) True | Some s \<Rightarrow> s)
       = length (tensor st)"
    "st' = st\<lparr>tensor :=
       iadd_slice
         (iadd_slice (tensor st)
            (case subpop e of None \<Rightarrow> replicate (length (tensor st)) True | Some s \<Rightarrow> s) k mi d1)
         (case subpop e of None \<Rightarrow> replicate (length (tensor st)) True | Some s \<Rightarrow> s) k mi d2\<rparr>"
  using assms unfolding apply_effect_def Let_def
  by (auto split: option.splits sum.splits if_splits)

lemma apply_effect_unchanged:
  assumes "apply_effect st e normal = Inr st'"
  shows "metrics st' = metrics st" and "num_interventions st' = num_interventions st"
    and "length (tensor st') = length (tensor st)"
    and "length (tensor st' ! u) = length (tensor st ! u)"
  using assms
  by (auto elim!: apply_effect_Inr simp: iadd_slice_length iadd_slice_row_length)

lemma apply_effect_frame:
  assumes run: "apply_effect st e normal = Inr st'"
    and t: "t < length (tensor st ! u)"
    and out: "\<not> targets st e u i m"
  shows "tensor st' ! u ! t ! i ! m = tensor st ! u ! t ! i ! m"
proof -
  let ?sub = "case subpop e of None \<Rightarrow> replicate (length (tensor st)) True | Some s \<Rightarrow> s"
  from run obtain mi k d1 d2 where
    mi: "list_index (map ident (metrics st)) (metric e) = Some mi" and
    k: "py_index (num_interventions st) (intervention e) = Inr k" and
    len: "length ?sub = length (tensor st)" and
    st': "st' = st\<lparr>tensor := iadd_slice (iadd_slice (tensor st) ?sub k mi d1) ?sub k mi d2\<rparr>"
    by (rule apply_effect_Inr)
  have unit: "u < length ?sub \<and> ?sub ! u \<Longrightarrow>
      (case subpop e of None \<Rightarrow> True | Some s \<Rightarrow> u < length s \<and> s ! u)"
    by (cases "subpop e") simp_all
  have outside: "\<not> (u < length ?sub \<and> ?sub ! u) \<or> i \<noteq> k \<or> m \<noteq> mi"
    using out mi k unit unfolding targets_def by auto
  let ?t1 = "iadd_slice (tensor st) ?sub k mi d1"
  have t1: "t < length (?t1 ! u)"
    using t by (simp add: iadd_slice_row_length)
  have "iadd_slice ?t1 ?sub k mi d2 ! u ! t ! i ! m = ?t1 ! u ! t ! i ! m"
    using t1 outside by (rule iadd_slice_frame)
  also have "\<dots> = tensor st ! u ! t ! i ! m"
    using t outside by (rule iadd_slice_frame)
  finally show ?thesis by (simp add: st')
qed

lemma targets_cong:
  assumes "metrics st' = metrics st" and "num_interventions st' = num_interventions st"
  shows "targets st' e u i m = targets st e u i m"
  using assms by (simp add: targets_def)

lemma effects_loop_frame:
  assumes "effects_loop st es normals n = Inr st'"
    and "t < length (tensor st ! u)"
    and "list_all (\<lambda>e. \<not> targets st e u i m) es"
  shows "tensor st' ! u ! t ! i ! m = tensor st ! u ! t ! i ! m"
  using assms
proof (induction es arbitrary: st n)
  case Nil
  then show ?case by simp
next
  case (Cons e es)
  from Cons.prems(1) obtain st1 where
    step: "apply_effect st e (normals n) = Inr st1" and
    rest: "effects_loop st1 es normals (Suc n) = Inr st'"
    by (auto split: sum.splits)
  note same = apply_effect_unchanged [OF step]
  have t1: "t < length (tensor st1 ! u)"
    using Cons.prems(2) same(4) by simp
  have out1: "list_all (\<lambda>e. \<not> targets st1 e u i m) es"
    using Cons.prems(3) by (simp add: targets_cong [OF same(1,2)])
  have "tensor st' ! u ! t ! i ! m = tensor st1 ! u ! t ! i ! m"
    using rest t1 out1 by (rule Cons.IH)
  also have "\<dots> = tensor st ! u ! t ! i ! m"
  proof -
    have "\<not> targets st e u i m" using Cons.prems(3) by simp
    with step Cons.prems(2) show ?thesis by (rule apply_effect_frame)
  qed
  finally show ?case .
qed

lemma add_metrics_tensor:
  assumes "add_metrics st init_draw = Inr st'"
  shows "tensor st' = tensor st"
  using assms unfolding add_metrics_def by (auto split: sum.splits)

text \<open>C10: after \<open>add_effects\<close> has returned, an entry of the tensor that lies in the
  slice of none of the applied effects holds the value it held before. For each effect
  the slice is the one \<open>targets\<close> describes: the entry stays when its unit is outside
  the subpopulation, or its intervention index is not the one the effect's intervention
  number denotes, or its metric index is not the index of the effect's metric.\<close>

theorem add_effects_frame:
  assumes "add_effects st effs normals init_draw = Inr st'"
    and "u < length (tensor st)" and "t < length (tensor st ! u)"
    and "list_all (\<lambda>e. \<not> targets st e u i m) effs"
  shows "tensor st' ! u ! t ! i ! m = tensor st ! u ! t ! i ! m"
proof -
  let ?st0 = "st\<lparr>effects := effects st @ effs\<rparr>"
  from assms(1) obtain st1 where
    loop: "effects_loop ?st0 effs normals 0 = Inr st1" and
    reload: "add_metrics st1 init_draw = Inr st'"
    unfolding add_effects_def by (auto split: sum.splits)
  have out: "list_all (\<lambda>e. \<not> targets ?st0 e u i m) effs"
    using assms(4) by (simp add: targets_def)
  have "tensor st1 ! u ! t ! i ! m = tensor ?st0 ! u ! t ! i ! m"
    using loop _ out by (rule effects_loop_frame) (simp add: assms(3))
  then show ?thesis
    using add_metrics_tensor [OF reload] by simp
qed


theorem add_effects_frame_witness:
  "(case add_effects example_module [example_effect] (\<lambda>n j t. Fl 1) (\<lambda>m u. Fl 0) of
      Inl err \<Rightarrow> False
    | Inr st' \<Rightarrow>
        tensor st' ! 0 ! 0 ! 1 ! 0 = Fl 5 \<and>
        tensor example_module ! 0 ! 0 ! 1 ! 0 = Fl 2 \<and>
        tensor st' ! 1 ! 0 ! 1 ! 0 = tensor example_module ! 1 ! 0 ! 1 ! 0 \<and>
        tensor st' ! 0 ! 0 ! 0 ! 0 = tensor example_module ! 0 ! 0 ! 0 ! 0)"
proof -
  let ?run = "add_effects example_module [example_effect] (\<lambda>n j t. Fl 1) (\<lambda>m u. Fl 0)"
  have "case ?run of Inl err \<Rightarrow> False
        | Inr st' \<Rightarrow> tensor st' ! 0 ! 0 ! 1 ! 0 = Fl 5 \<and> tensor example_module ! 0 ! 0 ! 1 ! 0 = Fl 2"
    by code_simp
  then obtain st' where run: "?run = Inr st'"
    and changed: "tensor st' ! 0 ! 0 ! 1 ! 0 = Fl 5" "tensor example_module ! 0 ! 0 ! 1 ! 0 = Fl 2"
    by (auto split: sum.splits)
  have u1: "(1::nat) < length (tensor example_module)"
    and u0: "(0::nat) < length (tensor example_module)"
    and t1: "(0::nat) < length (tensor example_module ! 1)"
    and t0: "(0::nat) < length (tensor example_module ! 0)"
    by (simp_all add: example_module_def example_tensor_def)
  have out1: "list_all (\<lambda>e. \<not> targets example_module e 1 1 0) [example_effect]"
    by (simp add: targets_def example_effect_def)
  have out0: "list_all (\<lambda>e. \<not> targets example_module e 0 0 0) [example_effect]"
    by (simp add: targets_def example_effect_def example_module_def py_index_def)
  have "tensor st' ! 1 ! 0 ! 1 ! 0 = tensor example_module ! 1 ! 0 ! 1 ! 0"
    using run u1 t1 out1 by (rule add_effects_frame)
  moreover have "tensor st' ! 0 ! 0 ! 0 ! 0 = tensor example_module ! 0 ! 0 ! 0 ! 0"
    using run u0 t0 out0 by (rule add_effects_frame)
  ultimately show ?thesis
    using run changed by simp
qed


subsection \<open>Splitting a candidate pool\<close>

lemma length_chop: "length (chop ns xs) = length ns"
  by (induction ns arbitrary: xs) simp_all

lemma concat_chop: "concat (chop ns xs) = take (sum_list ns) xs"
  by (induction ns arbitrary: xs) (simp_all add: take_add)

lemma map_length_chop:
  "sum_list ns \<le> length xs \<Longrightarrow> map length (chop ns xs) = ns"
  by (induction ns arbitrary: xs) simp_all

lemma sum_list_split_sizes:
  assumes "0 < k"
  shows "sum_list (split_sizes N k) = N"
proof -
  let ?r = "N mod k" and ?q = "N div k"
  have "?r \<le> k" using assms by simp
  then have "?r * (?q + 1) + (k - ?r) * ?q = ?r + k * ?q"
    by (simp add: algebra_simps diff_mult_distrib)
  also have "\<dots> = N" by simp
  finally show ?thesis
    by (simp add: split_sizes_def sum_list_replicate)
qed

lemma length_split_sizes: "0 < k \<Longrightarrow> length (split_sizes N k) = k"
  by (simp add: split_sizes_def)

lemma nth_split_sizes:
  "i < k \<Longrightarrow> split_sizes N k ! i = (if i < N mod k then N div k + 1 else N div k)"
  by (simp add: split_sizes_def nth_append)

text \<open>C3: for \<open>1 \<le> k\<close> (so for every \<open>1 \<le> k \<le> N\<close>) the split has exactly \<open>k\<close> groups, their
  lengths sum to \<open>N\<close>, the groups in order make up the sequence again (they are
  consecutive slices of it), and group \<open>i\<close> has \<open>N div k + 1\<close> elements when
  \<open>i < N mod k\<close> and \<open>N div k\<close> elements otherwise.\<close>

theorem split_seq_groups:
  assumes "1 \<le> k"
  shows "length (split_seq seq k) = k \<and>
         sum_list (map length (split_seq seq k)) = length seq \<and>
         concat (split_seq seq k) = seq \<and>
         (\<forall>i<k. length (split_seq seq k ! i) =
                  (if i < length seq mod k then length seq div k + 1 else length seq div k))"
proof -
  let ?ns = "split_sizes (length seq) k"
  have k: "0 < k" using assms by simp
  have total: "sum_list ?ns = length seq" using k by (rule sum_list_split_sizes)
  have lens: "map length (split_seq seq k) = ?ns"
    unfolding split_seq_def using total by (intro map_length_chop) simp
  have count: "length (split_seq seq k) = k"
    by (simp add: split_seq_def length_chop length_split_sizes k)
  have whole: "concat (split_seq seq k) = seq"
    by (simp add: split_seq_def concat_chop total)
  have each: "length (split_seq seq k ! i) =
      (if i < length seq mod k then length seq div k + 1 else length seq div k)" if "i < k" for i
  proof -
    have "length (split_seq seq k ! i) = map length (split_seq seq k) ! i"
      using that count by simp
    then show ?thesis
      using that by (simp only: lens nth_split_sizes)
  qed
  from count total whole each show ?thesis
    by (simp add: lens)
qed

theorem split_seq_groups_witness:
  "split_seq [1, 2, 4, 9, 11, 16, 18 :: nat] 3 = [[1, 2, 4], [9, 11], [16, 18]] \<and>
   length (split_seq [1, 2, 4, 9, 11, 16, 18 :: nat] 3) = 3 \<and>
   concat (split_seq [1, 2, 4, 9, 11, 16, 18 :: nat] 3) = [1, 2, 4, 9, 11, 16, 18] \<and>
   length (split_seq [1, 2, 4, 9, 11, 16, 18 :: nat] 3 ! 0) = 3 \<and>
   length (split_seq [1, 2, 4, 9, 11, 16, 18 :: nat] 3 ! 2) = 2"
proof -
  have v: "split_seq [1, 2, 4, 9, 11, 16, 18 :: nat] 3 = [[1, 2, 4], [9, 11], [16, 18]]"
    by code_simp
  have k: "(1::nat) \<le> 3" by simp
  note g = split_seq_groups [OF k, of "[1, 2, 4, 9, 11, 16, 18 :: nat]"]
  from g have "length (split_seq [1, 2, 4, 9, 11, 16, 18 :: nat] 3) = 3" by blast
  moreover from g have "concat (split_seq [1, 2, 4, 9, 11, 16, 18 :: nat] 3) = [1, 2, 4, 9, 11, 16, 18]"
    by blast
  moreover from g have "length (split_seq [1, 2, 4, 9, 11, 16, 18 :: nat] 3 ! 0) = 3" by simp
  moreover from g have "length (split_seq [1, 2, 4, 9, 11, 16, 18 :: nat] 3 ! 2) = 2" by simp
  ultimately show ?thesis using v by blast
qed



subsection \<open>Fallible steps\<close>

lemma ebind_Inr_iff: "ebind r f = Inr y \<longleftrightarrow> (\<exists>x. r = Inr x \<and> f x = Inr y)"
  by (cases r) (simp_all add: ebind_def)

lemma ebind_Inr [simp]: "ebind (Inr x) f = f x"
  by (simp add: ebind_def)

lemma sequence_err_Inr_iff:
  "sequence_err rs = Inr xs \<longleftrightarrow> rs = map Inr xs"
proof (induction rs arbitrary: xs)
  case Nil
  then show ?case by auto
next
  case (Cons r rs)
  show ?case
  proof (cases r)
    case (Inl err)
    then show ?thesis by (auto simp: ebind_def)
  next
    case (Inr x)
    then show ?thesis
      using Cons.IH by (cases xs) (auto simp: ebind_Inr_iff)
  qed
qed

lemma sequence_err_map_Inr:
  assumes "\<And>x. x \<in> set xs \<Longrightarrow> f x = Inr (g x)"
  shows "sequence_err (map f xs) = Inr (map g xs)"
  using assms by (simp add: sequence_err_Inr_iff)

subsection \<open>The shape of the tensor\<close>

lemma has_shape_nth:
  assumes "has_shape U T I M tn" and "u < U" and "t < T" and "i < I"
  shows "length (tn ! u) = T" and "length (tn ! u ! t) = I" and "length (tn ! u ! t ! i) = M"
  using assms by (auto simp: has_shape_def list_all_length)

lemma has_shape_map_metric:
  "has_shape U T I M tn \<Longrightarrow> has_shape U T I M (map_metric f m tn)"
  by (auto simp: has_shape_def map_metric_def list_all_iff)

lemma adjust_metric_shape:
  assumes "adjust_metric tn m rng = Inr tn'" and "has_shape U T I M tn"
  shows "has_shape U T I M tn'"
  using assms unfolding adjust_metric_def Let_def
  by (auto split: prod.splits if_splits intro!: has_shape_map_metric)

lemma adjust_loop_shape:
  "adjust_loop tn ms = Inr tn' \<Longrightarrow> has_shape U T I M tn \<Longrightarrow> has_shape U T I M tn'"
proof (induction ms arbitrary: tn)
  case Nil
  then show ?case by simp
next
  case (Cons a ms)
  obtain m mt where a: "a = (m, mt)" by (cases a)
  from Cons.prems(1) obtain t1 where
    one: "adjust_metric tn m (metric_range mt) = Inr t1" and rest: "adjust_loop t1 ms = Inr tn'"
    by (auto simp: a ebind_Inr_iff)
  from one Cons.prems(2) have "has_shape U T I M t1" by (rule adjust_metric_shape)
  with rest show ?case by (rule Cons.IH)
qed


subsection \<open>Frames\<close>

lemma set_col_Inr:
  assumes "set_col d c vs = Inr d'"
  shows "nrows d' = nrows d" and "length vs = nrows d"
    and "column d' = (column d)(c \<mapsto> vs)"
  using assms by (auto simp: set_col_def update_conv' split: if_splits)

lemma set_col_ok:
  "length vs = nrows d \<Longrightarrow> set_col d c vs = Inr (d\<lparr>cols := AList.update c vs (cols d)\<rparr>)"
  by (simp add: set_col_def)

lemma map_of_filter_fst:
  "map_of (filter (\<lambda>cv. fst cv \<notin> S) al) c = (if c \<in> S then None else map_of al c)"
  by (induction al) auto

lemma drop_cols_Inr:
  assumes "drop_cols d names = Inr d'"
  shows "nrows d' = nrows d"
    and "column d' c = (if c \<in> set names then None else column d c)"
  using assms by (auto simp: drop_cols_def map_of_filter_fst split: if_splits)

lemma drop_cols_ok:
  assumes "\<And>c. c \<in> set names \<Longrightarrow> column d c \<noteq> None"
  shows "\<exists>d'. drop_cols d names = Inr d'"
  using assms by (simp add: drop_cols_def list_all_iff)

lemma column_take_rows:
  "column (take_rows d ks) c = map_option (\<lambda>vs. map (\<lambda>k. vs ! k) ks) (column d c)"
proof -
  have "map_of (map (\<lambda>(c, vs). (c, map (\<lambda>k. vs ! k) ks)) al) c
      = map_option (\<lambda>vs. map (\<lambda>k. vs ! k) ks) (map_of al c)" for al
    by (induction al) auto
  then show ?thesis by (simp add: take_rows_def)
qed

lemma nrows_take_rows: "nrows (take_rows d ks) = length ks"
  by (simp add: take_rows_def)

text \<open>A step of either loop of \<open>sample\<close> stores one column and drops a list of
  columns: every other column stays as it is.\<close>

lemma set_then_drop:
  assumes "set_col d c vs = Inr d1" and "drop_cols d1 names = Inr d2"
  shows "nrows d2 = nrows d"
    and "c \<notin> set names \<Longrightarrow> column d2 c = Some vs"
    and "c0 \<noteq> c \<Longrightarrow> c0 \<notin> set names \<Longrightarrow> column d2 c0 = column d c0"
  using set_col_Inr [OF assms(1)] drop_cols_Inr [OF assms(2)] by simp_all


lemma py_index_ok:
  assumes "- int n \<le> i" and "i < int n"
  shows "\<exists>j<n. py_index n i = Inr j"
proof (cases "0 \<le> i")
  case True
  with assms show ?thesis by (auto simp: py_index_def)
next
  case False
  with assms have "nat (i + int n) < n" by linarith
  with False assms show ?thesis by (auto simp: py_index_def)
qed

lemma py_index_Inr_less: "py_index n i = Inr j \<Longrightarrow> j < n"
  by (auto simp: py_index_def split: if_splits)

lemma sort_values_ok:
  assumes "column d ''unit_id'' = Some us" and "column d ''time'' = Some ts"
    and "\<And>k. k < nrows d \<Longrightarrow> (\<exists>a. us ! k = IntC a) \<and> (\<exists>b. ts ! k = IntC b)"
  shows "\<exists>order. sort_values d = Inr (take_rows d order) \<and>
           length order = nrows d \<and> set order = {0..<nrows d}"
proof -
  let ?key = "\<lambda>k. (the (int_of_cell (us ! k)), the (int_of_cell (ts ! k)))"
  let ?order = "sort_key ?key [0..<nrows d]"
  have "list_all (\<lambda>k. int_of_cell (us ! k) \<noteq> None \<and> int_of_cell (ts ! k) \<noteq> None) [0..<nrows d]"
    using assms(3) by (fastforce simp: list_all_iff)
  then have "sort_values d = Inr (take_rows d ?order)"
    using assms(1,2) by (simp add: sort_values_def)
  moreover have "length ?order = nrows d" by simp
  moreover have "set ?order = {0..<nrows d}" by simp
  ultimately show ?thesis by blast
qed

lemma select_by_assignment_ok:
  assumes present: "\<And>c. c \<in> set names \<Longrightarrow> column d c \<noteq> None"
    and n: "n = length ia" "n \<le> nrows d"
    and ia: "\<And>a. a \<in> set ia \<Longrightarrow> - int (length names) \<le> a \<and> a < int (length names)"
  shows "\<exists>cells. select_by_assignment d names n ia = Inr cells \<and> length cells = n \<and>
           (\<forall>k<n. \<exists>c\<in>set names. \<exists>vs. column d c = Some vs \<and> cells ! k = vs ! k)"
proof -
  let ?columns = "map (\<lambda>c. the (column d c)) names"
  have cols: "sequence_err (map (get_col d) names) = Inr ?columns"
    using present by (intro sequence_err_map_Inr) (fastforce simp: get_col_def)
  define pick where "pick k = (SOME j. j < length names \<and> py_index (length names) (ia ! k) = Inr j)" for k
  have pick: "pick k < length names \<and> py_index (length names) (ia ! k) = Inr (pick k)"
    if "k < n" for k
  proof -
    have "ia ! k \<in> set ia" using that n(1) by simp
    then have "\<exists>j<length names. py_index (length names) (ia ! k) = Inr j"
      using ia by (intro py_index_ok) auto
    then show ?thesis unfolding pick_def by (rule someI_ex)
  qed
  let ?cells = "map (\<lambda>k. ?columns ! pick k ! k) [0..<n]"
  have "sequence_err
          (map (\<lambda>k. ebind (py_index (length names) (ia ! k))
                      (\<lambda>j. if k < nrows d then Inr (?columns ! j ! k) else Inl IndexError))
             [0..<n]) = Inr ?cells"
    using pick n(2) by (intro sequence_err_map_Inr) auto
  then have run: "select_by_assignment d names n ia = Inr ?cells"
    using cols n(1) by (simp add: select_by_assignment_def)
  have "\<exists>c\<in>set names. \<exists>vs. column d c = Some vs \<and> ?cells ! k = vs ! k" if "k < n" for k
  proof -
    let ?c = "names ! pick k"
    have c: "?c \<in> set names" using pick [OF that] by simp
    then obtain vs where vs: "column d ?c = Some vs" using present by blast
    have "?cells ! k = vs ! k" using that pick [OF that] vs by simp
    with c vs show ?thesis by blast
  qed
  with run show ?thesis by auto
qed

lemma length_cumsum_from: "length (cumsum_from acc xs) = length xs"
  by (induction xs arbitrary: acc) simp_all

lemma length_cumsum: "length (cumsum xs) = length xs"
  by (cases xs) (simp_all add: length_cumsum_from)

lemma length_concat_const:
  assumes "\<And>x. x \<in> set xs \<Longrightarrow> length (f x) = n"
  shows "length (concat (map f xs)) = length xs * n"
  using assms by (induction xs) simp_all

lemma cumulate_ok:
  assumes "length chosen = U * T" and "length iv = U"
  shows "\<exists>out. cumulate U T (Some iv) chosen = Inr out \<and> length out = U * T"
proof -
  have "length (take T (drop (u * T) chosen)) = T" if "u < U" for u
  proof -
    have "(u + 1) * T \<le> U * T" using that by (intro mult_le_mono1) simp
    then show ?thesis using assms(1) by simp
  qed
  then have "length (concat (map (\<lambda>u. map (\<lambda>x. fadd x (iv ! u))
                 (cumsum (take T (drop (u * T) chosen)))) [0..<U])) = length [0..<U] * T"
    by (intro length_concat_const) (simp add: length_cumsum)
  then show ?thesis
    using assms by (simp add: cumulate_def)
qed


lemma choose_metric_ok:
  assumes keys: "column d ''unit_id'' = Some us" "column d ''time'' = Some ts"
      "\<And>k. k < nrows d \<Longrightarrow> (\<exists>a. us ! k = IntC a) \<and> (\<exists>b. ts ! k = IntC b)"
    and n: "nrows d = n" "nrows (df st) = n" "length ia = n" "length mask_flat = n"
      "n = num_units st * num_timesteps st"
    and cols: "\<And>c. c \<in> set metric_list \<Longrightarrow>
      \<exists>xs. column d c = Some (map FloatC xs) \<and> length xs = n"
    and ia: "\<And>a. a \<in> set ia \<Longrightarrow> - int (length metric_list) \<le> a \<and> a < int (length metric_list)"
    and i: "i < length (metrics st)"
    and init: "difference_metric (metrics st ! i) \<Longrightarrow>
      \<exists>iv. init_values (metrics st ! i) = Some iv \<and> length iv = num_units st"
  shows "\<exists>chosen. choose_metric st d i metric_list ia mask_flat = Inr chosen \<and>
           length chosen = n \<and> (\<forall>k<n. mask_flat ! k \<longrightarrow> chosen ! k = NaN)"
proof -
  from sort_values_ok [OF keys] obtain order where
    sorted: "sort_values d = Inr (take_rows d order)" and
    order: "length order = n" "set order = {0..<n}"
    using n(1) by auto
  let ?s = "take_rows d order"
  have scol: "\<exists>xs. column ?s c = Some (map (\<lambda>k. map FloatC xs ! k) order) \<and> length xs = n"
    if "c \<in> set metric_list" for c
    using cols [OF that] by (auto simp: column_take_rows)
  have "\<exists>cells. select_by_assignment ?s metric_list n ia = Inr cells \<and> length cells = n \<and>
      (\<forall>k<n. \<exists>c\<in>set metric_list. \<exists>vs. column ?s c = Some vs \<and> cells ! k = vs ! k)"
    using scol n(3) order(1) ia
    by (intro select_by_assignment_ok) (auto simp: nrows_take_rows)
  then obtain cells where
    sel: "select_by_assignment ?s metric_list n ia = Inr cells" and
    len: "length cells = n" and
    from_col: "\<And>k. k < n \<Longrightarrow>
      \<exists>c\<in>set metric_list. \<exists>vs. column ?s c = Some vs \<and> cells ! k = vs ! k"
    by blast
  have floats: "\<exists>x. c = FloatC x" if "c \<in> set cells" for c
  proof -
    from that len obtain k where k: "k < n" "c = cells ! k"
      by (auto simp: in_set_conv_nth)
    from from_col [OF k(1)] obtain c' vs where
      c': "c' \<in> set metric_list" "column ?s c' = Some vs" "cells ! k = vs ! k" by blast
    from scol [OF c'(1)] c'(2) obtain xs where
      vs: "vs = map (\<lambda>k. map FloatC xs ! k) order" and xs: "length xs = n" by auto
    have "order ! k < n" using k(1) order by (metis atLeastLessThan_iff nth_mem)
    then have "vs ! k = FloatC (xs ! (order ! k))"
      using vs xs k(1) order(1) by simp
    with c'(3) k(2) show ?thesis by simp
  qed
  define val where "val c = (case c of FloatC x \<Rightarrow> x | _ \<Rightarrow> NaN)" for c
  let ?chosen = "map val cells"
  have conv: "sequence_err (map float_of_cell cells) = Inr ?chosen"
  proof (rule sequence_err_map_Inr)
    fix c assume "c \<in> set cells"
    then obtain x where "c = FloatC x" using floats by blast
    then show "float_of_cell c = Inr (val c)" by (simp add: val_def)
  qed
  have "\<exists>chosen1. (if difference_metric (metrics st ! i)
                     then cumulate (num_units st) (num_timesteps st)
                            (init_values (metrics st ! i)) ?chosen
                     else Inr ?chosen) = Inr chosen1 \<and> length chosen1 = n"
  proof (cases "difference_metric (metrics st ! i)")
    case True
    from init [OF True] obtain iv where
      iv: "init_values (metrics st ! i) = Some iv" "length iv = num_units st" by blast
    have "length ?chosen = num_units st * num_timesteps st" using len n(5) by simp
    from cumulate_ok [OF this iv(2)] show ?thesis using True iv(1) n(5) by simp
  next
    case False
    then show ?thesis using len by simp
  qed
  then obtain chosen1 where
    c1: "(if difference_metric (metrics st ! i)
          then cumulate (num_units st) (num_timesteps st) (init_values (metrics st ! i)) ?chosen
          else Inr ?chosen) = Inr chosen1" and
    l1: "length chosen1 = n" by blast
  define chosen2 where "chosen2 =
    (case clip_range (metrics st ! i) of
       None \<Rightarrow> chosen1
     | Some (min_, max_) \<Rightarrow> map (\<lambda>x. fclip x min_ max_) chosen1)"
  have l2: "length chosen2 = n"
    using l1 by (simp add: chosen2_def split: option.splits prod.splits)
  let ?out = "map (\<lambda>k. if mask_flat ! k then NaN else chosen2 ! k) [0..<length chosen2]"
  have "choose_metric st d i metric_list ia mask_flat = Inr ?out"
    unfolding choose_metric_def
    using sorted sel conv i c1 l2 n(2,4)
    by (simp add: Let_def chosen2_def [symmetric])
  moreover have "length ?out = n" using l2 by simp
  moreover have "\<forall>k<n. mask_flat ! k \<longrightarrow> ?out ! k = NaN" using l2 by simp
  ultimately show ?thesis by blast
qed


text \<open>The loop over the metrics, from a frame that holds the key columns \<open>unit_id\<close>
  and \<open>time\<close> and the columns of every metric list still to come. \<open>rest\<close> is what
  is left of \<open>enumerate(self.metric_columns)\<close>.\<close>

lemma sample_metrics_loop_ok:
  assumes keys: "column d ''unit_id'' = Some us" "column d ''time'' = Some ts"
      "\<And>k. k < n \<Longrightarrow> (\<exists>a. us ! k = IntC a) \<and> (\<exists>b. ts ! k = IntC b)"
    and n: "nrows d = n" "nrows (df st) = n" "length ia = n" "length mask_flat = n"
      "n = num_units st * num_timesteps st"
    and entries: "\<And>i l. (i, l) \<in> set rest \<Longrightarrow>
      i < length (metrics st) \<and>
      (\<forall>c\<in>set l. \<exists>xs. column d c = Some (map FloatC xs) \<and> length xs = n) \<and>
      (\<forall>a\<in>set ia. - int (length l) \<le> a \<and> a < int (length l)) \<and>
      (difference_metric (metrics st ! i) \<longrightarrow>
        (\<exists>iv. init_values (metrics st ! i) = Some iv \<and> length iv = num_units st))"
    and dist: "distinct (''unit_id'' # ''time'' #
      map (\<lambda>il. name (metrics st ! fst il)) rest @ concat (map snd rest))"
  shows "\<exists>d'. sample_metrics_loop st ia mask_flat d rest = Inr d' \<and> nrows d' = n \<and>
      (\<forall>il\<in>set rest. \<exists>vs. column d' (name (metrics st ! fst il)) = Some (map FloatC vs) \<and>
          length vs = n \<and> (\<forall>k<n. mask_flat ! k \<longrightarrow> vs ! k = NaN)) \<and>
      (\<forall>c. c \<notin> set (map (\<lambda>il. name (metrics st ! fst il)) rest) \<longrightarrow>
           c \<notin> set (concat (map snd rest)) \<longrightarrow> column d' c = column d c)"
  using assms
proof (induction rest arbitrary: d)
  case Nil
  then show ?case by simp
next
  case (Cons il rest)
  obtain i l where il: "il = (i, l)" by (cases il)
  let ?nm = "name (metrics st ! i)"
  let ?names = "map (\<lambda>il. name (metrics st ! fst il)) rest"
  let ?lists = "concat (map snd rest)"
  note keys = Cons.prems(1-3) and n = Cons.prems(4-8)
  have here: "i < length (metrics st)"
      "\<And>c. c \<in> set l \<Longrightarrow> \<exists>xs. column d c = Some (map FloatC xs) \<and> length xs = n"
      "\<And>a. a \<in> set ia \<Longrightarrow> - int (length l) \<le> a \<and> a < int (length l)"
      "difference_metric (metrics st ! i) \<Longrightarrow>
        \<exists>iv. init_values (metrics st ! i) = Some iv \<and> length iv = num_units st"
    using Cons.prems(9) [of i l] by (auto simp: il)
  from Cons.prems(10) have
    d_keys: "''unit_id'' \<noteq> ?nm" "''time'' \<noteq> ?nm" "''unit_id'' \<notin> set l" "''time'' \<notin> set l"
      "''unit_id'' \<notin> set ?names" "''time'' \<notin> set ?names"
      "''unit_id'' \<notin> set ?lists" "''time'' \<notin> set ?lists" "''unit_id'' \<noteq> ''time''" and
    d_nm: "?nm \<notin> set ?names" "?nm \<notin> set l" "?nm \<notin> set ?lists" and
    d_l: "set l \<inter> set ?names = {}" "set l \<inter> set ?lists = {}" and
    d_rest: "distinct (?names @ ?lists)"
    by (auto simp: il)
  have "\<exists>chosen. choose_metric st d i l ia mask_flat = Inr chosen \<and>
           length chosen = n \<and> (\<forall>k<n. mask_flat ! k \<longrightarrow> chosen ! k = NaN)"
    using keys(1,2) _ n here(2,3,1,4)
    by (rule choose_metric_ok) (use keys(3) n(1) in auto)
  then obtain chosen where
    ch: "choose_metric st d i l ia mask_flat = Inr chosen" and
    chl: "length chosen = n" and
    chm: "\<And>k. k < n \<Longrightarrow> mask_flat ! k \<Longrightarrow> chosen ! k = NaN"
    by blast
  obtain d1 where d1: "set_col d ?nm (map FloatC chosen) = Inr d1"
    using set_col_ok [of "map FloatC chosen" d ?nm] chl n(1) by auto
  have "\<exists>d2. drop_cols d1 l = Inr d2"
  proof (rule drop_cols_ok)
    fix c assume "c \<in> set l"
    with here(2) d_nm(2) show "column d1 c \<noteq> None"
      by (auto simp: set_col_Inr(3) [OF d1])
  qed
  then obtain d2 where d2: "drop_cols d1 l = Inr d2" by blast
  note step = set_then_drop [OF d1 d2]
  have run: "sample_metrics_loop st ia mask_flat d (il # rest)
      = sample_metrics_loop st ia mask_flat d2 rest"
    using ch d1 d2 by (simp add: il)
  have entries2: "i' < length (metrics st) \<and>
      (\<forall>c\<in>set l'. \<exists>xs. column d2 c = Some (map FloatC xs) \<and> length xs = n) \<and>
      (\<forall>a\<in>set ia. - int (length l') \<le> a \<and> a < int (length l')) \<and>
      (difference_metric (metrics st ! i') \<longrightarrow>
        (\<exists>iv. init_values (metrics st ! i') = Some iv \<and> length iv = num_units st))"
    if "(i', l') \<in> set rest" for i' l'
  proof -
    note e = Cons.prems(9) [of i' l']
    have mem: "set l' \<subseteq> set ?lists" using that by force
    have "column d2 c = column d c" if "c \<in> set l'" for c
    proof (rule step(3))
      show "c \<noteq> ?nm" using that mem d_nm(3) by auto
      show "c \<notin> set l" using that mem d_l(2) by auto
    qed
    with e that show ?thesis by simp
  qed
  have "\<exists>d'. sample_metrics_loop st ia mask_flat d2 rest = Inr d' \<and> nrows d' = n \<and>
      (\<forall>il\<in>set rest. \<exists>vs. column d' (name (metrics st ! fst il)) = Some (map FloatC vs) \<and>
          length vs = n \<and> (\<forall>k<n. mask_flat ! k \<longrightarrow> vs ! k = NaN)) \<and>
      (\<forall>c. c \<notin> set ?names \<longrightarrow> c \<notin> set ?lists \<longrightarrow> column d' c = column d2 c)"
  proof (rule Cons.IH)
    show "column d2 ''unit_id'' = Some us"
      using step(3) [of "''unit_id''"] d_keys keys(1) by simp
    show "column d2 ''time'' = Some ts"
      using step(3) [of "''time''"] d_keys keys(2) by simp
    show "\<And>k. k < n \<Longrightarrow> (\<exists>a. us ! k = IntC a) \<and> (\<exists>b. ts ! k = IntC b)" by (rule keys(3))
    show "nrows d2 = n" using step(1) n(1) by simp
    show "distinct (''unit_id'' # ''time'' # ?names @ ?lists)"
      using d_keys d_rest by simp
  qed (use n entries2 in auto)
  then obtain d' where
    loop: "sample_metrics_loop st ia mask_flat d2 rest = Inr d'" and
    rows: "nrows d' = n" and
    masked: "\<And>il. il \<in> set rest \<Longrightarrow>
      \<exists>vs. column d' (name (metrics st ! fst il)) = Some (map FloatC vs) \<and>
        length vs = n \<and> (\<forall>k<n. mask_flat ! k \<longrightarrow> vs ! k = NaN)" and
    frame: "\<And>c. c \<notin> set ?names \<Longrightarrow> c \<notin> set ?lists \<Longrightarrow> column d' c = column d2 c"
    by blast
  have first: "\<exists>vs. column d' ?nm = Some (map FloatC vs) \<and> length vs = n \<and>
      (\<forall>k<n. mask_flat ! k \<longrightarrow> vs ! k = NaN)"
  proof -
    have "column d' ?nm = column d2 ?nm" using d_nm by (intro frame) auto
    also have "\<dots> = Some (map FloatC chosen)" using d_nm(2) by (rule step(2))
    finally show ?thesis using chl chm by blast
  qed
  have frame': "column d' c = column d c"
    if "c \<notin> set (map (\<lambda>il. name (metrics st ! fst il)) (il # rest))"
      and "c \<notin> set (concat (map snd (il # rest)))" for c
  proof -
    from that have c: "c \<noteq> ?nm" "c \<notin> set ?names" "c \<notin> set l" "c \<notin> set ?lists"
      by (auto simp: il)
    have "column d' c = column d2 c" using c by (intro frame)
    also have "\<dots> = column d c" using c by (intro step(3))
    finally show ?thesis .
  qed
  show ?case
    unfolding run using loop rows masked first frame' by (auto simp: il)
qed


lemma sample_covs_loop_ok:
  assumes n: "nrows d = n" "nrows (df st) = n" "length ia = n"
    and entries: "\<And>i l. (i, l) \<in> set rest \<Longrightarrow>
      i < length (int_cov st) \<and> (\<forall>c\<in>set l. column d c \<noteq> None) \<and>
      (\<forall>a\<in>set ia. - int (length l) \<le> a \<and> a < int (length l))"
    and dist: "distinct (map (\<lambda>il. int_cov st ! fst il) rest @ concat (map snd rest))"
  shows "\<exists>d'. sample_covs_loop st ia d rest = Inr d' \<and> nrows d' = n \<and>
      (\<forall>c. c \<notin> set (map (\<lambda>il. int_cov st ! fst il) rest) \<longrightarrow>
           c \<notin> set (concat (map snd rest)) \<longrightarrow> column d' c = column d c)"
  using assms
proof (induction rest arbitrary: d)
  case Nil
  then show ?case by simp
next
  case (Cons il rest)
  obtain i l where il: "il = (i, l)" by (cases il)
  let ?nm = "int_cov st ! i"
  let ?names = "map (\<lambda>il. int_cov st ! fst il) rest"
  let ?lists = "concat (map snd rest)"
  note n = Cons.prems(1-3)
  have here: "i < length (int_cov st)" "\<And>c. c \<in> set l \<Longrightarrow> column d c \<noteq> None"
      "\<And>a. a \<in> set ia \<Longrightarrow> - int (length l) \<le> a \<and> a < int (length l)"
    using Cons.prems(4) [of i l] by (auto simp: il)
  from Cons.prems(5) have
    d_nm: "?nm \<notin> set ?names" "?nm \<notin> set l" "?nm \<notin> set ?lists" and
    d_l: "set l \<inter> set ?names = {}" "set l \<inter> set ?lists = {}" and
    d_rest: "distinct (?names @ ?lists)"
    by (auto simp: il)
  have "\<exists>cells. select_by_assignment d l n ia = Inr cells \<and> length cells = n \<and>
      (\<forall>k<n. \<exists>c\<in>set l. \<exists>vs. column d c = Some vs \<and> cells ! k = vs ! k)"
    using here(2) n(3,1) here(3) by (intro select_by_assignment_ok) auto
  then obtain cells where
    sel: "select_by_assignment d l (nrows (df st)) ia = Inr cells" and len: "length cells = n"
    using n(2) by auto
  obtain d1 where d1: "set_col d ?nm cells = Inr d1"
    using set_col_ok [of cells d ?nm] len n(1) by auto
  have "\<exists>d2. drop_cols d1 l = Inr d2"
  proof (rule drop_cols_ok)
    fix c assume "c \<in> set l"
    with here(2) d_nm(2) show "column d1 c \<noteq> None"
      by (auto simp: set_col_Inr(3) [OF d1])
  qed
  then obtain d2 where d2: "drop_cols d1 l = Inr d2" by blast
  note step = set_then_drop [OF d1 d2]
  have run: "sample_covs_loop st ia d (il # rest) = sample_covs_loop st ia d2 rest"
    using sel here(1) d1 d2 by (simp add: il)
  have entries2: "i' < length (int_cov st) \<and> (\<forall>c\<in>set l'. column d2 c \<noteq> None) \<and>
      (\<forall>a\<in>set ia. - int (length l') \<le> a \<and> a < int (length l'))"
    if "(i', l') \<in> set rest" for i' l'
  proof -
    note e = Cons.prems(4) [of i' l']
    have mem: "set l' \<subseteq> set ?lists" using that by force
    have "column d2 c = column d c" if "c \<in> set l'" for c
    proof (rule step(3))
      show "c \<noteq> ?nm" using that mem d_nm(3) by auto
      show "c \<notin> set l" using that mem d_l(2) by auto
    qed
    with e that show ?thesis by simp
  qed
  have "\<exists>d'. sample_covs_loop st ia d2 rest = Inr d' \<and> nrows d' = n \<and>
      (\<forall>c. c \<notin> set ?names \<longrightarrow> c \<notin> set ?lists \<longrightarrow> column d' c = column d2 c)"
  proof (rule Cons.IH)
    show "nrows d2 = n" using step(1) n(1) by simp
    show "distinct (?names @ ?lists)" by (rule d_rest)
  qed (use n entries2 in auto)
  then obtain d' where
    loop: "sample_covs_loop st ia d2 rest = Inr d'" and
    rows: "nrows d' = n" and
    frame: "\<And>c. c \<notin> set ?names \<Longrightarrow> c \<notin> set ?lists \<Longrightarrow> column d' c = column d2 c"
    by blast
  have frame': "column d' c = column d c"
    if "c \<notin> set (map (\<lambda>il. int_cov st ! fst il) (il # rest))"
      and "c \<notin> set (concat (map snd (il # rest)))" for c
  proof -
    from that have c: "c \<noteq> ?nm" "c \<notin> set ?names" "c \<notin> set l" "c \<notin> set ?lists"
      by (auto simp: il)
    have "column d' c = column d2 c" using c by (intro frame)
    also have "\<dots> = column d c" using c by (intro step(3))
    finally show ?thesis .
  qed
  show ?case
    unfolding run using loop rows frame' by auto
qed

text \<open>\<open>dropna\<close>: the columns stay, no cell of what is left is NaN, and a row with a NaN
  cell is not among the rows kept.\<close>

lemma dropna_take_rows: "dropna d = take_rows d (kept_rows d)"
  by (simp add: dropna_def)

lemma column_dropna:
  "column (dropna d) c = map_option (\<lambda>vs. map (\<lambda>k. vs ! k) (kept_rows d)) (column d c)"
  by (simp add: dropna_take_rows column_take_rows)

lemma dropna_no_nan:
  assumes "(c, vs) \<in> set (cols (dropna d))" and "x \<in> set vs"
  shows "\<not> is_nan_cell x"
proof -
  from assms(1) obtain vs0 where
    vs0: "(c, vs0) \<in> set (cols d)" and vs: "vs = map (\<lambda>k. vs0 ! k) (kept_rows d)"
    by (auto simp: dropna_take_rows take_rows_def)
  from assms(2) vs obtain k where k: "k \<in> set (kept_rows d)" and x: "x = vs0 ! k" by auto
  from k vs0 have "\<not> is_nan_cell (vs0 ! k)"
    by (auto simp: kept_rows_def list_all_iff)
  with x show ?thesis by simp
qed

lemma nan_row_not_kept:
  assumes "column d c = Some vs" and "is_nan_cell (vs ! k)"
  shows "k \<notin> set (kept_rows d)"
proof -
  from assms(1) have "(c, vs) \<in> set (cols d)" by (rule map_of_SomeD)
  with assms(2) show ?thesis
    by (force simp: kept_rows_def list_all_iff)
qed


subsection \<open>Flat and two-dimensional positions\<close>

lemma length_concat_rows:
  "mask_shape U T rows \<Longrightarrow> length (concat rows) = U * T"
  unfolding mask_shape_def
  by (induction rows arbitrary: U) (auto simp: length_concat)

lemma nth_concat_rows:
  assumes "mask_shape U T rows" and "u < U" and "t < T"
  shows "concat rows ! (u * T + t) = rows ! u ! t"
  using assms
proof (induction rows arbitrary: U u)
  case Nil
  then show ?case by (simp add: mask_shape_def)
next
  case (Cons r rows)
  from Cons.prems(1) have r: "length r = T" and rest: "mask_shape (U - 1) T rows"
    by (auto simp: mask_shape_def)
  show ?case
  proof (cases u)
    case 0
    then show ?thesis using r Cons.prems(3) by (simp add: nth_append)
  next
    case (Suc u')
    then have "u' < U - 1" using Cons.prems(2) by simp
    from Cons.IH [OF rest this Cons.prems(3)] show ?thesis
      using Suc r by (simp add: nth_append)
  qed
qed

lemma length_combinations: "length (combinations U T) = U * T"
  by (simp add: combinations_def)

lemma nth_combinations:
  assumes "u < U" and "t < T"
  shows "combinations U T ! (u * T + t) = (u, t)"
proof -
  have "u * T + t < U * T"
  proof -
    have "u * T + t < (u + 1) * T" using assms(2) by simp
    also have "\<dots> \<le> U * T" using assms(1) by (intro mult_le_mono1) simp
    finally show ?thesis .
  qed
  then show ?thesis
    using assms by (simp add: combinations_def product_nth)
qed

lemma flat_position_less:
  assumes "u < U" and "t < T"
  shows "u * T + t < U * (T::nat)"
proof -
  have "u * T + t < (u + 1) * T" using assms(2) by simp
  also have "\<dots> \<le> U * T" using assms(1) by (intro mult_le_mono1) simp
  finally show ?thesis .
qed

lemma flat_position_inj:
  assumes "t < T" and "t' < T" and "u * T + t = u' * T + (t'::nat)"
  shows "u = u' \<and> t = t'"
proof -
  have "(u * T + t) div T = u" "(u' * T + t') div T = u'"
    using assms(1,2) by simp_all
  then have "u = u'" using assms(3) by simp
  with assms(3) show ?thesis by simp
qed

lemma enumerate_map_fst:
  "map (\<lambda>il. f (fst il)) (enumerate 0 xs) = map f [0..<length xs]"
proof -
  have "map (\<lambda>il. f (fst il)) (enumerate 0 xs) = map f (map fst (enumerate 0 xs))"
    by (simp only: map_map comp_def)
  moreover have "map fst (enumerate 0 xs) = [0..<length xs]"
    by (simp add: map_fst_enumerate)
  ultimately show ?thesis by (simp only:)
qed


subsection \<open>\<open>sample\<close> on a module as \<open>generate\<close> leaves it\<close>

lemma distinct_names_parts:
  assumes "distinct (a # b # c # N @ ML @ IC @ IL @ UC)"
  shows "distinct (a # b # N @ ML)" and "distinct (IC @ IL)"
    and "c \<notin> set N \<union> set ML \<union> set IC \<union> set IL \<union> set UC"
    and "a \<notin> set N \<union> set ML \<union> set IC \<union> set IL \<union> set UC"
    and "b \<notin> set N \<union> set ML \<union> set IC \<union> set IL \<union> set UC"
    and "a \<noteq> c" and "b \<noteq> c" and "a \<noteq> b"
    and "set N \<inter> (set IC \<union> set IL \<union> set UC) = {}"
    and "set ML \<inter> (set IC \<union> set IL \<union> set UC) = {}"
    and "set UC \<inter> (set IC \<union> set IL) = {}"
  using assms by auto

lemma sample_run:
  fixes st :: synth_module
  defines "U \<equiv> num_units st" and "T \<equiv> num_timesteps st" and "I \<equiv> num_interventions st"
  defines "n \<equiv> num_units st * num_timesteps st"
  defines "us \<equiv> map (\<lambda>ut. IntC (int (fst ut))) (combinations (num_units st) (num_timesteps st))"
  defines "ts \<equiv> map (\<lambda>ut. IntC (int (snd ut))) (combinations (num_units st) (num_timesteps st))"
  assumes rows: "nrows (df st) = n"
    and keys: "column (df st) ''unit_id'' = Some us" "column (df st) ''time'' = Some ts"
    and mcols: "metric_columns st = map (\<lambda>mt. map (metric_column_name mt) [0..<I]) (metrics st)"
    and mpresent: "\<And>c. c \<in> set (concat (metric_columns st)) \<Longrightarrow>
        \<exists>xs. column (df st) c = Some (map FloatC xs) \<and> length xs = n"
    and init: "\<And>mt. mt \<in> set (metrics st) \<Longrightarrow> difference_metric mt \<Longrightarrow>
        \<exists>iv. init_values mt = Some iv \<and> length iv = U"
    and icols: "int_cov st \<noteq> [] \<Longrightarrow>
        intervention_columns st = map (\<lambda>cov. map (cov_column_name cov) [0..<I]) (int_cov st)"
    and ipresent: "\<And>c. int_cov st \<noteq> [] \<Longrightarrow> c \<in> set (concat (intervention_columns st)) \<Longrightarrow>
        column (df st) c \<noteq> None"
    and dist: "distinct (all_names st)"
    and ia: "mask_shape U T ia2d" "\<And>a. a \<in> set (concat ia2d) \<Longrightarrow> - int I \<le> a \<and> a < int I"
    and obs: "mask_shape U T obs"
  shows "\<exists>idx d2.
      sample st ia2d obs =
        Inr (subsample_tensor st idx obs, dropna d2, st\<lparr>mask_arr := selection_mask st idx\<rparr>) \<and>
      length idx = n \<and> (\<forall>k<n. py_index I (concat ia2d ! k) = Inr (idx ! k)) \<and>
      nrows d2 = n \<and> column d2 ''unit_id'' = Some us \<and> column d2 ''time'' = Some ts \<and>
      (\<forall>mt\<in>set (metrics st). \<exists>vs. column d2 (name mt) = Some (map FloatC vs) \<and>
          length vs = n \<and> (\<forall>k<n. concat obs ! k \<longrightarrow> vs ! k = NaN))"
proof -
  let ?ia = "concat ia2d"
  let ?mc = "metric_columns st" and ?ic = "intervention_columns st"
  let ?mlists = "concat (map (\<lambda>mt. map (metric_column_name mt) [0..<I]) (metrics st))"
  let ?ilists = "concat (map (\<lambda>cov. map (cov_column_name cov) [0..<I]) (int_cov st))"
  have names: "all_names st = ''unit_id'' # ''time'' # ''intervention'' #
      map name (metrics st) @ ?mlists @ int_cov st @ ?ilists @ unit_cov st"
    by (simp add: all_names_def I_def)
  note parts = distinct_names_parts [OF dist [unfolded names]]
  have len_ia: "length ?ia = n" using ia(1) by (simp add: length_concat_rows n_def U_def T_def)
  have len_mask: "length (concat obs) = n"
    using obs by (simp add: length_concat_rows n_def U_def T_def)
  have len_us: "length us = n" "length ts = n"
    by (simp_all add: us_def ts_def length_combinations n_def)
  have ints: "(\<exists>a. us ! k = IntC a) \<and> (\<exists>b. ts ! k = IntC b)" if "k < n" for k
    using that by (simp add: us_def ts_def length_combinations n_def)
  \<comment> \<open>the assignments resolve to positions\<close>
  define pos where "pos a = (if 0 \<le> a then nat a else nat (a + int I))" for a
  define idx where "idx = map pos ?ia"
  have pos: "py_index I a = Inr (pos a)" if "a \<in> set ?ia" for a
    using ia(2) [OF that] by (auto simp: py_index_def pos_def)
  have seq: "sequence_err (map (py_index I) ?ia) = Inr idx"
    unfolding idx_def using pos by (rule sequence_err_map_Inr)
  have idx: "length idx = n" "\<And>k. k < n \<Longrightarrow> py_index I (?ia ! k) = Inr (idx ! k)"
  proof -
    show "length idx = n" using len_ia by (simp add: idx_def)
    fix k assume "k < n"
    then have "?ia ! k \<in> set ?ia" using len_ia by (intro nth_mem) simp
    from pos [OF this] show "py_index I (?ia ! k) = Inr (idx ! k)"
      using \<open>k < n\<close> len_ia by (simp add: idx_def)
  qed
  \<comment> \<open>the frame after \<open>df_copy["intervention"] = intervention_assignments\<close>\<close>
  obtain d0 where d0: "set_col (df st) ''intervention'' (map IntC ?ia) = Inr d0"
    using set_col_ok [of "map IntC ?ia" "df st"] len_ia rows by auto
  note d0_facts = set_col_Inr [OF d0]
  have d0_col: "column d0 c = column (df st) c" if "c \<noteq> ''intervention''" for c
    using that by (simp add: d0_facts(3))
  \<comment> \<open>the loop over the metrics\<close>
  have rest_names: "map (\<lambda>il. name (metrics st ! fst il)) (enumerate 0 ?mc) = map name (metrics st)"
  proof -
    have "map (\<lambda>il. name (metrics st ! fst il)) (enumerate 0 ?mc)
        = map (\<lambda>i. name (metrics st ! i)) [0..<length ?mc]"
      by (rule enumerate_map_fst)
    also have "\<dots> = map name (metrics st)"
      by (simp add: mcols map_nth flip: map_map [of name "\<lambda>i. metrics st ! i", unfolded comp_def])
    finally show ?thesis .
  qed
  have rest_lists: "concat (map snd (enumerate 0 ?mc)) = ?mlists"
    by (simp add: mcols)
  have "\<exists>d1. sample_metrics_loop st ?ia (concat obs) d0 (enumerate 0 ?mc) = Inr d1 \<and>
      nrows d1 = n \<and>
      (\<forall>il\<in>set (enumerate 0 ?mc).
          \<exists>vs. column d1 (name (metrics st ! fst il)) = Some (map FloatC vs) \<and>
            length vs = n \<and> (\<forall>k<n. concat obs ! k \<longrightarrow> vs ! k = NaN)) \<and>
      (\<forall>c. c \<notin> set (map (\<lambda>il. name (metrics st ! fst il)) (enumerate 0 ?mc)) \<longrightarrow>
           c \<notin> set (concat (map snd (enumerate 0 ?mc))) \<longrightarrow> column d1 c = column d0 c)"
  proof (rule sample_metrics_loop_ok [where us = us and ts = ts])
    show "column d0 ''unit_id'' = Some us" using keys(1) by (simp add: d0_col)
    show "column d0 ''time'' = Some ts" using keys(2) by (simp add: d0_col)
    show "\<And>k. k < n \<Longrightarrow> (\<exists>a. us ! k = IntC a) \<and> (\<exists>b. ts ! k = IntC b)" by (rule ints)
    show "nrows d0 = n" using d0_facts(1) rows by simp
    show "nrows (df st) = n" by (rule rows)
    show "length ?ia = n" by (rule len_ia)
    show "length (concat obs) = n" by (rule len_mask)
    show "n = num_units st * num_timesteps st" by (simp add: n_def)
    show "distinct (''unit_id'' # ''time'' #
        map (\<lambda>il. name (metrics st ! fst il)) (enumerate 0 ?mc) @ concat (map snd (enumerate 0 ?mc)))"
      unfolding rest_names rest_lists by (rule parts(1))
  next
    fix i l assume il: "(i, l) \<in> set (enumerate 0 ?mc)"
    then have "l \<in> set ?mc" by (auto simp: in_set_enumerate_eq)
    then have sub: "set l \<subseteq> set (concat ?mc)" by auto
    from il have i: "i < length (metrics st)"
      and l: "l = map (metric_column_name (metrics st ! i)) [0..<I]"
      by (auto simp: in_set_enumerate_eq mcols)
    have present: "\<exists>xs. column d0 c = Some (map FloatC xs) \<and> length xs = n" if "c \<in> set l" for c
    proof -
      have "c \<in> set ?mlists" using subsetD [OF sub that] by (simp only: mcols)
      then have "c \<noteq> ''intervention''" using parts(3) by blast+
      then show ?thesis using mpresent [of c] that sub by (auto simp: d0_col)
    qed
    have "length l = I" by (simp add: l)
    then have range: "\<forall>a\<in>set ?ia. - int (length l) \<le> a \<and> a < int (length l)"
      using ia(2) by simp
    have "metrics st ! i \<in> set (metrics st)" using i by simp
    then have "difference_metric (metrics st ! i) \<longrightarrow>
        (\<exists>iv. init_values (metrics st ! i) = Some iv \<and> length iv = num_units st)"
      using init by (auto simp: U_def)
    with i present range show "i < length (metrics st) \<and>
        (\<forall>c\<in>set l. \<exists>xs. column d0 c = Some (map FloatC xs) \<and> length xs = n) \<and>
        (\<forall>a\<in>set ?ia. - int (length l) \<le> a \<and> a < int (length l)) \<and>
        (difference_metric (metrics st ! i) \<longrightarrow>
          (\<exists>iv. init_values (metrics st ! i) = Some iv \<and> length iv = num_units st))"
      by blast
  qed
  then obtain d1 where
    loop1: "sample_metrics_loop st ?ia (concat obs) d0 (enumerate 0 ?mc) = Inr d1" and
    rows1: "nrows d1 = n" and
    masked1: "\<And>il. il \<in> set (enumerate 0 ?mc) \<Longrightarrow>
        \<exists>vs. column d1 (name (metrics st ! fst il)) = Some (map FloatC vs) \<and>
          length vs = n \<and> (\<forall>k<n. concat obs ! k \<longrightarrow> vs ! k = NaN)" and
    frame1: "\<And>c. c \<notin> set (map name (metrics st)) \<Longrightarrow> c \<notin> set ?mlists \<Longrightarrow>
        column d1 c = column d0 c"
    unfolding rest_names rest_lists by blast
  have metric1: "\<exists>vs. column d1 (name mt) = Some (map FloatC vs) \<and>
      length vs = n \<and> (\<forall>k<n. concat obs ! k \<longrightarrow> vs ! k = NaN)" if "mt \<in> set (metrics st)" for mt
  proof -
    from that obtain i where i: "i < length (metrics st)" "mt = metrics st ! i"
      by (auto simp: in_set_conv_nth)
    then have "(i, ?mc ! i) \<in> set (enumerate 0 ?mc)"
      by (simp add: in_set_enumerate_eq mcols)
    from masked1 [OF this] i(2) show ?thesis by simp
  qed
  have keys1: "column d1 ''unit_id'' = Some us" "column d1 ''time'' = Some ts"
  proof -
    have "''unit_id'' \<notin> set (map name (metrics st))" "''unit_id'' \<notin> set ?mlists"
      "''time'' \<notin> set (map name (metrics st))" "''time'' \<notin> set ?mlists"
      using parts(4,5) by blast+
    then show "column d1 ''unit_id'' = Some us" "column d1 ''time'' = Some ts"
      using keys by (simp_all add: frame1 d0_col)
  qed
  \<comment> \<open>the loop over the intervention covariates\<close>
  have "\<exists>d2. (if int_cov st \<noteq> [] then sample_covs_loop st ?ia d1 (enumerate 0 ?ic) else Inr d1)
        = Inr d2 \<and> nrows d2 = n \<and>
      (\<forall>c. c \<notin> set (int_cov st) \<longrightarrow> c \<notin> set ?ilists \<longrightarrow> column d2 c = column d1 c)"
  proof (cases "int_cov st = []")
    case True
    then show ?thesis using rows1 by simp
  next
    case False
    note ic = icols [OF False]
    have cov_names: "map (\<lambda>il. int_cov st ! fst il) (enumerate 0 ?ic) = int_cov st"
    proof -
      have "map (\<lambda>il. int_cov st ! fst il) (enumerate 0 ?ic)
          = map (\<lambda>i. int_cov st ! i) [0..<length ?ic]"
        by (rule enumerate_map_fst)
      also have "\<dots> = int_cov st" by (simp add: ic map_nth)
      finally show ?thesis .
    qed
    have cov_lists: "concat (map snd (enumerate 0 ?ic)) = ?ilists" by (simp add: ic)
    have "\<exists>d2. sample_covs_loop st ?ia d1 (enumerate 0 ?ic) = Inr d2 \<and> nrows d2 = n \<and>
        (\<forall>c. c \<notin> set (map (\<lambda>il. int_cov st ! fst il) (enumerate 0 ?ic)) \<longrightarrow>
             c \<notin> set (concat (map snd (enumerate 0 ?ic))) \<longrightarrow> column d2 c = column d1 c)"
    proof (rule sample_covs_loop_ok)
      show "nrows d1 = n" by (rule rows1)
      show "nrows (df st) = n" by (rule rows)
      show "length ?ia = n" by (rule len_ia)
      show "distinct (map (\<lambda>il. int_cov st ! fst il) (enumerate 0 ?ic) @
          concat (map snd (enumerate 0 ?ic)))"
        unfolding cov_names cov_lists by (rule parts(2))
    next
      fix i l assume il: "(i, l) \<in> set (enumerate 0 ?ic)"
      then have "l \<in> set ?ic" by (auto simp: in_set_enumerate_eq)
      then have sub: "set l \<subseteq> set (concat ?ic)" by auto
      from il have i: "i < length (int_cov st)"
        and l: "l = map (cov_column_name (int_cov st ! i)) [0..<I]"
        by (auto simp: in_set_enumerate_eq ic)
      have present: "column d1 c \<noteq> None" if "c \<in> set l" for c
      proof -
        have c: "c \<in> set ?ilists" using subsetD [OF sub that] by (simp only: ic)
        then have "c \<noteq> ''intervention''" "c \<notin> set (map name (metrics st))" "c \<notin> set ?mlists"
          using parts(3,9,10) by blast+
        then have "column d1 c = column (df st) c" by (simp add: frame1 d0_col)
        then show ?thesis using ipresent [OF False, of c] that sub by auto
      qed
      have "length l = I" by (simp add: l)
      then have "\<forall>a\<in>set ?ia. - int (length l) \<le> a \<and> a < int (length l)"
        using ia(2) by simp
      with i present show "i < length (int_cov st) \<and> (\<forall>c\<in>set l. column d1 c \<noteq> None) \<and>
          (\<forall>a\<in>set ?ia. - int (length l) \<le> a \<and> a < int (length l))"
        by blast
    qed
    then show ?thesis using False unfolding cov_names cov_lists by simp
  qed
  then obtain d2 where
    loop2: "(if int_cov st \<noteq> [] then sample_covs_loop st ?ia d1 (enumerate 0 ?ic) else Inr d1)
        = Inr d2" and
    rows2: "nrows d2 = n" and
    frame2: "\<And>c. c \<notin> set (int_cov st) \<Longrightarrow> c \<notin> set ?ilists \<Longrightarrow> column d2 c = column d1 c"
    by blast
  have keys2: "column d2 ''unit_id'' = Some us" "column d2 ''time'' = Some ts"
  proof -
    have "''unit_id'' \<notin> set (int_cov st)" "''unit_id'' \<notin> set ?ilists"
      "''time'' \<notin> set (int_cov st)" "''time'' \<notin> set ?ilists"
      using parts(4,5) by blast+
    then show "column d2 ''unit_id'' = Some us" "column d2 ''time'' = Some ts"
      using keys1 by (simp_all add: frame2)
  qed
  have metric2: "\<exists>vs. column d2 (name mt) = Some (map FloatC vs) \<and>
      length vs = n \<and> (\<forall>k<n. concat obs ! k \<longrightarrow> vs ! k = NaN)" if "mt \<in> set (metrics st)" for mt
  proof -
    have "name mt \<in> set (map name (metrics st))" using that by simp
    then have "name mt \<notin> set (int_cov st)" "name mt \<notin> set ?ilists"
      using parts(9) by blast+
    then have "column d2 (name mt) = column d1 (name mt)" by (rule frame2)
    with metric1 [OF that] show ?thesis by simp
  qed
  have "length ?ia = length (combinations (num_units st) (num_timesteps st))"
    using len_ia by (simp add: length_combinations n_def)
  then have "sample st ia2d obs =
      Inr (subsample_tensor st idx obs, dropna d2, st\<lparr>mask_arr := selection_mask st idx\<rparr>)"
    unfolding sample_def Let_def
    using seq obs d0 loop1 loop2 by (simp add: I_def U_def T_def)
  with idx rows2 keys2 metric2 show ?thesis by blast
qed


lemma subsample_tensor_nth:
  assumes shape: "has_shape (num_units st) (num_timesteps st) (num_interventions st) M (tensor st)"
    and idx: "\<And>k. k < num_units st * num_timesteps st \<Longrightarrow> idx ! k < num_interventions st"
    and u: "u < num_units st" and t: "t < num_timesteps st"
  shows "length (subsample_tensor st idx obs) = num_units st"
    and "length (subsample_tensor st idx obs ! u) = num_timesteps st"
    and "subsample_tensor st idx obs ! u ! t =
      (if obs ! u ! t then replicate M NaN
       else tensor st ! u ! t ! (idx ! (u * num_timesteps st + t)))"
    and "length (subsample_tensor st idx obs ! u ! t) = M"
proof -
  let ?U = "num_units st" and ?T = "num_timesteps st"
  let ?k = "u * ?T + t"
  have k: "?k < ?U * ?T" using u t by (rule flat_position_less)
  have combo: "combinations ?U ?T ! ?k = (u, t)" using u t by (rule nth_combinations)
  have len: "length (tensor st ! u ! t ! (idx ! ?k)) = M"
    using shape u t idx [OF k] by (rule has_shape_nth(3))
  have picked: "map (\<lambda>k. tensor st ! fst (combinations ?U ?T ! k) ! snd (combinations ?U ?T ! k) !
      (idx ! k)) [0..<length (combinations ?U ?T)] ! ?k = tensor st ! u ! t ! (idx ! ?k)"
    using k combo by (simp add: length_combinations)
  show "length (subsample_tensor st idx obs) = ?U"
    by (simp add: subsample_tensor_def Let_def)
  show "length (subsample_tensor st idx obs ! u) = ?T"
    using u by (simp add: subsample_tensor_def Let_def)
  have cell: "subsample_tensor st idx obs ! u ! t =
      (if obs ! u ! t then map (\<lambda>x. NaN) (tensor st ! u ! t ! (idx ! ?k))
       else tensor st ! u ! t ! (idx ! ?k))"
    using u t picked by (simp add: subsample_tensor_def Let_def)
  have "map (\<lambda>x. NaN) (tensor st ! u ! t ! (idx ! ?k)) = replicate M NaN"
    using len by (simp add: map_replicate_const)
  with cell show "subsample_tensor st idx obs ! u ! t =
      (if obs ! u ! t then replicate M NaN else tensor st ! u ! t ! (idx ! ?k))"
    by simp
  with len show "length (subsample_tensor st idx obs ! u ! t) = M"
    by simp
qed


subsection \<open>What \<open>generate\<close> leaves\<close>

lemma combinations_key_mono:
  assumes "k \<le> k'"
  shows "(int (k div T), int (k mod T)) \<le> (int (k' div T), int (k' mod T))"
proof (cases "k div T = k' div T")
  case True
  have "k mod T \<le> k' mod T"
  proof -
    have "T * (k div T) + k mod T \<le> T * (k' div T) + k' mod T"
      using assms by (simp only: mult_div_mod_eq)
    then show ?thesis by (simp only: True add_le_cancel_left)
  qed
  with True show ?thesis by (simp add: less_eq_prod_def)
next
  case False
  moreover have "k div T \<le> k' div T" using assms by (rule div_le_mono)
  ultimately show ?thesis by (simp add: less_eq_prod_def)
qed

lemma init_df_result:
  assumes "init_df st = Inr st'"
  shows "st' = st\<lparr>df :=
      \<lparr>nrows = num_units st * num_timesteps st,
       cols = [(''unit_id'', map (\<lambda>ut. IntC (int (fst ut))) (combinations (num_units st) (num_timesteps st))),
               (''time'', map (\<lambda>ut. IntC (int (snd ut))) (combinations (num_units st) (num_timesteps st)))]\<rparr>\<rparr>"
proof -
  let ?U = "num_units st" and ?T = "num_timesteps st"
  let ?combos = "combinations ?U ?T"
  let ?us = "map (\<lambda>ut. IntC (int (fst ut))) ?combos" and ?ts = "map (\<lambda>ut. IntC (int (snd ut))) ?combos"
  let ?d = "\<lparr>nrows = length ?combos, cols = [(''unit_id'', ?us), (''time'', ?ts)]\<rparr>"
  let ?n = "?U * ?T"
  let ?key = "\<lambda>k. (the (int_of_cell (?us ! k)), the (int_of_cell (?ts ! k)))"
  have len: "length ?combos = ?n" by (rule length_combinations)
  have nth: "?combos ! k = (k div ?T, k mod ?T)" if "k < ?n" for k
  proof -
    have "k div ?T < ?U" using that by (simp add: less_mult_imp_div_less)
    moreover have "0 < ?T" using that by (cases "?T = 0") simp_all
    ultimately show ?thesis
      using that by (simp add: combinations_def product_nth)
  qed
  have key: "?key k = (int (k div ?T), int (k mod ?T))" if "k < ?n" for k
    using that by (simp add: len nth)
  define pos where "pos k = (int (k div ?T), int (k mod ?T))" for k
  have pos_mono: "pos i \<le> pos j" if "i \<le> j" for i j
    unfolding pos_def using that by (rule combinations_key_mono)
  have same: "map ?key [0..<?n] = map pos [0..<?n]"
    using key by (simp add: pos_def)
  have "sorted (map pos [0..<?n])"
  proof (rule sorted_map_mono)
    show "sorted [0..<?n]" by simp
    show "mono_on (set [0..<?n]) pos"
      by (rule mono_onI) (rule pos_mono)
  qed
  then have "sorted (map ?key [0..<?n])" by (simp only: same)
  then have order: "sort_key ?key [0..<?n] = [0..<?n]"
    by (rule sort_key_id_if_sorted)
  have all_int: "list_all (\<lambda>k. int_of_cell (?us ! k) \<noteq> None \<and> int_of_cell (?ts ! k) \<noteq> None) [0..<?n]"
    by (simp add: list_all_iff len)
  have "sort_values ?d = Inr (take_rows ?d [0..<?n])"
    using all_int order by (simp add: sort_values_def len)
  moreover have "take_rows ?d [0..<?n] = ?d"
    using len by (simp add: take_rows_def map_nth [of ?us, unfolded length_map len]
        map_nth [of ?ts, unfolded length_map len])
  ultimately have "sort_values ?d = Inr ?d" by simp
  with assms show ?thesis
    by (simp add: init_df_def Let_def len)
qed


lemma add_cov_columns_Inr:
  assumes "add_cov_columns d cov draw ixs = Inr d'"
  shows "nrows d' = nrows d"
    and "c \<notin> set (map (cov_column_name cov) ixs) \<Longrightarrow> column d' c = column d c"
    and "column d c \<noteq> None \<Longrightarrow> column d' c \<noteq> None"
    and "c \<in> set (map (cov_column_name cov) ixs) \<Longrightarrow> column d' c \<noteq> None"
  using assms
proof (induction ixs arbitrary: d)
  case Nil
  {
    case 1 then show ?case by simp
  next
    case 2 then show ?case by simp
  next
    case 3 then show ?case by simp
  next
    case 4 then show ?case by simp
  }
next
  case (Cons i ixs)
  {
    case 1
    then obtain d1 where a: "set_col d (cov_column_name cov i) (draw i) = Inr d1"
      and b: "add_cov_columns d1 cov draw ixs = Inr d'" by (auto simp: ebind_Inr_iff)
    show ?case using Cons.IH(1) [OF b] set_col_Inr(1) [OF a] by simp
  next
    case 2
    from 2(2) obtain d1 where a: "set_col d (cov_column_name cov i) (draw i) = Inr d1"
      and b: "add_cov_columns d1 cov draw ixs = Inr d'" by (auto simp: ebind_Inr_iff)
    show ?case using Cons.IH(2) [OF _ b] set_col_Inr(3) [OF a] 2(1) by simp
  next
    case 3
    from 3(2) obtain d1 where a: "set_col d (cov_column_name cov i) (draw i) = Inr d1"
      and b: "add_cov_columns d1 cov draw ixs = Inr d'" by (auto simp: ebind_Inr_iff)
    show ?case using Cons.IH(3) [OF _ b] set_col_Inr(3) [OF a] 3(1) by simp
  next
    case 4
    from 4(2) obtain d1 where a: "set_col d (cov_column_name cov i) (draw i) = Inr d1"
      and b: "add_cov_columns d1 cov draw ixs = Inr d'" by (auto simp: ebind_Inr_iff)
    have "column d1 (cov_column_name cov i) \<noteq> None" by (simp add: set_col_Inr(3) [OF a])
    then show ?case
      using Cons.IH(3) [OF _ b] Cons.IH(4) [OF _ b] 4(1) by auto
  }
qed


lemma add_int_covs_loop_Inr:
  assumes "add_int_covs_loop I int_draw d ccs = Inr d'"
  shows "nrows d' = nrows d \<and>
    (\<forall>c. c \<notin> set (concat (map (\<lambda>cc. map (cov_column_name (snd cc)) [0..<I]) ccs)) \<longrightarrow>
         column d' c = column d c) \<and>
    (\<forall>c. column d c \<noteq> None \<longrightarrow> column d' c \<noteq> None) \<and>
    (\<forall>c\<in>set (concat (map (\<lambda>cc. map (cov_column_name (snd cc)) [0..<I]) ccs)).
         column d' c \<noteq> None)"
  using assms
proof (induction ccs arbitrary: d)
  case Nil
  then show ?case by simp
next
  case (Cons cc ccs)
  obtain c cov where cc: "cc = (c, cov)" by (cases cc)
  from Cons.prems obtain d1 where
    a: "add_cov_columns d cov (int_draw c) [0..<I] = Inr d1" and
    b: "add_int_covs_loop I int_draw d1 ccs = Inr d'"
    by (auto simp: cc ebind_Inr_iff)
  note one = add_cov_columns_Inr [OF a] and rest = Cons.IH [OF b]
  show ?case
    using one(1) one(2) one(3) one(4) rest by (simp add: cc) blast
qed

lemma add_unit_covs_loop_Inr:
  assumes "add_unit_covs_loop U unit_draw d ccs = Inr d'"
  shows "nrows d' = nrows d \<and>
    (\<forall>c. c \<notin> set (map snd ccs) \<longrightarrow> column d' c = column d c) \<and>
    (\<forall>c. column d c \<noteq> None \<longrightarrow> column d' c \<noteq> None)"
  using assms
proof (induction ccs arbitrary: d)
  case Nil
  then show ?case by simp
next
  case (Cons cc ccs)
  obtain c cov where cc: "cc = (c, cov)" by (cases cc)
  from Cons.prems obtain vs d1 where
    a: "set_col d cov vs = Inr d1" and
    b: "add_unit_covs_loop U unit_draw d1 ccs = Inr d'"
    by (auto simp: cc ebind_Inr_iff split: option.splits)
  note one = set_col_Inr [OF a] and rest = Cons.IH [OF b]
  show ?case
    using one rest by (simp add: cc)
qed

lemma add_metric_columns_Inr:
  assumes "add_metric_columns d tn mt m ixs = Inr d'"
  shows "nrows d' = nrows d \<and>
    (\<forall>c. c \<notin> set (map (metric_column_name mt) ixs) \<longrightarrow> column d' c = column d c) \<and>
    (\<forall>c. column d c \<noteq> None \<longrightarrow> column d' c \<noteq> None) \<and>
    (\<forall>c. (\<exists>xs. column d c = Some (map FloatC xs) \<and> length xs = nrows d) \<longrightarrow>
         (\<exists>xs. column d' c = Some (map FloatC xs) \<and> length xs = nrows d)) \<and>
    (\<forall>c\<in>set (map (metric_column_name mt) ixs).
         \<exists>xs. column d' c = Some (map FloatC xs) \<and> length xs = nrows d)"
  using assms
proof (induction ixs arbitrary: d)
  case Nil
  then show ?case by simp
next
  case (Cons i ixs)
  let ?c = "metric_column_name mt i" and ?xs = "flatten_slice tn i m"
  from Cons.prems obtain d1 where
    a: "set_col d ?c (map FloatC ?xs) = Inr d1" and
    b: "add_metric_columns d1 tn mt m ixs = Inr d'"
    by (auto simp: ebind_Inr_iff split: sum.splits)
  note one = set_col_Inr [OF a] and rest = Cons.IH [OF b]
  have len: "length ?xs = nrows d" using one(2) by simp
  have keep: "\<exists>xs. column d1 c = Some (map FloatC xs) \<and> length xs = nrows d1"
    if "\<exists>xs. column d c = Some (map FloatC xs) \<and> length xs = nrows d" for c
    using that one(1) len by (cases "c = ?c") (auto simp: one(3))
  have new: "\<exists>xs. column d1 ?c = Some (map FloatC xs) \<and> length xs = nrows d1"
    using one(1) len by (auto simp: one(3))
  from rest have
    r1: "nrows d' = nrows d1" and
    r2: "\<And>c. c \<notin> set (map (metric_column_name mt) ixs) \<Longrightarrow> column d' c = column d1 c" and
    r3: "\<And>c. column d1 c \<noteq> None \<Longrightarrow> column d' c \<noteq> None" and
    r4: "\<And>c. \<exists>xs. column d1 c = Some (map FloatC xs) \<and> length xs = nrows d1 \<Longrightarrow>
          \<exists>xs. column d' c = Some (map FloatC xs) \<and> length xs = nrows d1" and
    r5: "\<And>c. c \<in> set (map (metric_column_name mt) ixs) \<Longrightarrow>
          \<exists>xs. column d' c = Some (map FloatC xs) \<and> length xs = nrows d1"
    by blast+
  have "nrows d' = nrows d" using r1 one(1) by simp
  moreover have "column d' c = column d c"
    if "c \<notin> set (map (metric_column_name mt) (i # ixs))" for c
    using that r2 [of c] by (simp add: one(3))
  moreover have "column d' c \<noteq> None" if "column d c \<noteq> None" for c
    using that r3 [of c] by (simp add: one(3))
  moreover have "\<exists>xs. column d' c = Some (map FloatC xs) \<and> length xs = nrows d"
    if "\<exists>xs. column d c = Some (map FloatC xs) \<and> length xs = nrows d" for c
    using r4 [OF keep [OF that]] one(1) by simp
  moreover have "\<exists>xs. column d' c = Some (map FloatC xs) \<and> length xs = nrows d"
    if "c \<in> set (map (metric_column_name mt) (i # ixs))" for c
  proof (cases "c = ?c")
    case True
    then show ?thesis using r4 [OF new] one(1) by simp
  next
    case False
    with that have "c \<in> set (map (metric_column_name mt) ixs)" by auto
    from r5 [OF this] show ?thesis using one(1) by simp
  qed
  ultimately show ?case by blast
qed


lemma add_metrics_loop_Inr:
  assumes "add_metrics_loop st init_draw d ems = Inr (d', mts, names)"
  shows "mts = map (\<lambda>em. draw_init_values (num_units st) (snd em) (init_draw (fst em))) ems \<and>
    names = map (\<lambda>em. map (metric_column_name (snd em)) [0..<num_interventions st]) ems \<and>
    nrows d' = nrows d \<and>
    (\<forall>c. c \<notin> set (concat names) \<longrightarrow> column d' c = column d c) \<and>
    (\<forall>c. column d c \<noteq> None \<longrightarrow> column d' c \<noteq> None) \<and>
    (\<forall>c. (\<exists>xs. column d c = Some (map FloatC xs) \<and> length xs = nrows d) \<longrightarrow>
         (\<exists>xs. column d' c = Some (map FloatC xs) \<and> length xs = nrows d)) \<and>
    (\<forall>c\<in>set (concat names). \<exists>xs. column d' c = Some (map FloatC xs) \<and> length xs = nrows d)"
  using assms
proof (induction ems arbitrary: d d' mts names)
  case Nil
  then show ?case by simp
next
  case (Cons em ems)
  obtain m mt where em: "em = (m, mt)" by (cases em)
  let ?I = "num_interventions st"
  from Cons.prems obtain d1 d2 mts' names' where
    a: "add_metric_columns d (tensor st) mt m [0..<?I] = Inr d1" and
    b: "add_metrics_loop st init_draw d1 ems = Inr (d2, mts', names')" and
    res: "d' = d2" "mts = draw_init_values (num_units st) mt (init_draw m) # mts'"
      "names = map (metric_column_name mt) [0..<?I] # names'"
    by (auto simp: em split: sum.splits)
  from add_metric_columns_Inr [OF a] have
    o1: "nrows d1 = nrows d" and
    o2: "\<And>c. c \<notin> set (map (metric_column_name mt) [0..<?I]) \<Longrightarrow> column d1 c = column d c" and
    o3: "\<And>c. column d c \<noteq> None \<Longrightarrow> column d1 c \<noteq> None" and
    o4: "\<And>c. \<exists>xs. column d c = Some (map FloatC xs) \<and> length xs = nrows d \<Longrightarrow>
          \<exists>xs. column d1 c = Some (map FloatC xs) \<and> length xs = nrows d" and
    o5: "\<And>c. c \<in> set (map (metric_column_name mt) [0..<?I]) \<Longrightarrow>
          \<exists>xs. column d1 c = Some (map FloatC xs) \<and> length xs = nrows d"
    by blast+
  from Cons.IH [OF b] have
    r0: "mts' = map (\<lambda>em. draw_init_values (num_units st) (snd em) (init_draw (fst em))) ems"
      "names' = map (\<lambda>em. map (metric_column_name (snd em)) [0..<?I]) ems" and
    r1: "nrows d2 = nrows d1" and
    r2: "\<And>c. c \<notin> set (concat names') \<Longrightarrow> column d2 c = column d1 c" and
    r3: "\<And>c. column d1 c \<noteq> None \<Longrightarrow> column d2 c \<noteq> None" and
    r4: "\<And>c. \<exists>xs. column d1 c = Some (map FloatC xs) \<and> length xs = nrows d1 \<Longrightarrow>
          \<exists>xs. column d2 c = Some (map FloatC xs) \<and> length xs = nrows d1" and
    r5: "\<And>c. c \<in> set (concat names') \<Longrightarrow>
          \<exists>xs. column d2 c = Some (map FloatC xs) \<and> length xs = nrows d1"
    by blast+
  have "mts = map (\<lambda>em. draw_init_values (num_units st) (snd em) (init_draw (fst em))) (em # ems)"
    using res(2) r0(1) by (simp add: em)
  moreover have "names = map (\<lambda>em. map (metric_column_name (snd em)) [0..<?I]) (em # ems)"
    using res(3) r0(2) by (simp add: em)
  moreover have "nrows d' = nrows d" using res(1) r1 o1 by simp
  moreover have "column d' c = column d c" if "c \<notin> set (concat names)" for c
    using that r2 [of c] o2 [of c] by (simp add: res)
  moreover have "column d' c \<noteq> None" if "column d c \<noteq> None" for c
    using r3 [OF o3 [OF that]] by (simp add: res)
  moreover have "\<exists>xs. column d' c = Some (map FloatC xs) \<and> length xs = nrows d"
    if "\<exists>xs. column d c = Some (map FloatC xs) \<and> length xs = nrows d" for c
    using r4 [of c] o4 [OF that] o1 by (simp add: res)
  moreover have "\<exists>xs. column d' c = Some (map FloatC xs) \<and> length xs = nrows d"
    if "c \<in> set (concat names)" for c
  proof (cases "c \<in> set (concat names')")
    case True
    from r5 [OF this] show ?thesis using o1 by (simp add: res)
  next
    case False
    with that have "c \<in> set (map (metric_column_name mt) [0..<?I])" by (auto simp: res)
    from o5 [OF this] show ?thesis using r4 [of c] o1 by (simp add: res)
  qed
  ultimately show ?case by blast
qed

lemma draw_init_values_fields:
  "name (draw_init_values U mt draw) = name mt"
  "difference_metric (draw_init_values U mt draw) = difference_metric mt"
  "metric_column_name (draw_init_values U mt draw) i = metric_column_name mt i"
  by (simp_all add: draw_init_values_def metric_column_name_def split: prod.splits)

lemma draw_init_values_length:
  assumes "difference_metric mt"
    and "case init_values mt of None \<Rightarrow> True | Some iv \<Rightarrow> length iv = U"
  shows "\<exists>iv. init_values (draw_init_values U mt draw) = Some iv \<and> length iv = U"
  using assms by (cases "init_values mt") (auto simp: draw_init_values_def split: prod.splits)


lemma map_snd_enumerate_fields:
  "map (\<lambda>em. f (snd em)) (enumerate 0 xs) = map f xs"
proof -
  have "map (\<lambda>em. f (snd em)) (enumerate 0 xs) = map f (map snd (enumerate 0 xs))"
    by (simp only: map_map comp_def)
  then show ?thesis by (simp only: map_snd_enumerate)
qed

lemma generate_result:
  fixes st0 :: synth_module
  defines "U \<equiv> num_units st0" and "T \<equiv> num_timesteps st0" and "I \<equiv> num_interventions st0"
  assumes gen: "generate st0 raw int_draw unit_draw init_draw = Inr st"
    and raw: "cp_outcome st0 raw"
    and dist: "distinct (all_names st0)"
    and init0: "init_values_ok st0"
  shows "num_units st = U \<and> num_timesteps st = T \<and> num_interventions st = I \<and>
      int_cov st = int_cov st0 \<and> unit_cov st = unit_cov st0 \<and>
      length (metrics st) = length (metrics st0) \<and>
      map name (metrics st) = map name (metrics st0) \<and>
      all_names st = all_names st0"
    and "has_shape U T I (length (metrics st0)) (tensor st)"
    and "nrows (df st) = U * T"
    and "column (df st) ''unit_id'' = Some (map (\<lambda>ut. IntC (int (fst ut))) (combinations U T))"
    and "column (df st) ''time'' = Some (map (\<lambda>ut. IntC (int (snd ut))) (combinations U T))"
    and "metric_columns st = map (\<lambda>mt. map (metric_column_name mt) [0..<I]) (metrics st)"
    and "\<And>c. c \<in> set (concat (metric_columns st)) \<Longrightarrow>
        \<exists>xs. column (df st) c = Some (map FloatC xs) \<and> length xs = U * T"
    and "\<And>mt. mt \<in> set (metrics st) \<Longrightarrow> difference_metric mt \<Longrightarrow>
        \<exists>iv. init_values mt = Some iv \<and> length iv = U"
    and "int_cov st \<noteq> [] \<Longrightarrow>
        intervention_columns st = map (\<lambda>cov. map (cov_column_name cov) [0..<I]) (int_cov st)"
    and "\<And>c. int_cov st \<noteq> [] \<Longrightarrow> c \<in> set (concat (intervention_columns st)) \<Longrightarrow>
        column (df st) c \<noteq> None"
proof -
  let ?us = "map (\<lambda>ut. IntC (int (fst ut))) (combinations U T)"
  let ?ts = "map (\<lambda>ut. IntC (int (snd ut))) (combinations U T)"
  let ?D0 = "\<lparr>nrows = U * T, cols = [(''unit_id'', ?us), (''time'', ?ts)]\<rparr>"
  let ?mlists = "concat (map (\<lambda>mt. map (metric_column_name mt) [0..<I]) (metrics st0))"
  let ?ilists = "concat (map (\<lambda>cov. map (cov_column_name cov) [0..<I]) (int_cov st0))"
  have names: "all_names st0 = ''unit_id'' # ''time'' # ''intervention'' #
      map name (metrics st0) @ ?mlists @ int_cov st0 @ ?ilists @ unit_cov st0"
    by (simp add: all_names_def I_def)
  note parts = distinct_names_parts [OF dist [unfolded names]]
  \<comment> \<open>the four steps of \<open>generate\<close>\<close>
  from gen obtain tn st1 st2 st3 where
    tn: "generate_tensor st0 raw = Inr tn" and
    s1: "init_df (st0\<lparr>tensor := tn\<rparr>) = Inr st1" and
    s2: "(if int_cov st1 \<noteq> [] then add_intervention_covs st1 int_draw else Inr st1) = Inr st2" and
    s3: "(if unit_cov st2 \<noteq> [] then add_unit_covs st2 unit_draw else Inr st2) = Inr st3" and
    s4: "add_metrics st3 init_draw = Inr st"
    unfolding generate_def by (auto simp: ebind_Inr_iff)
  have shape: "has_shape U T I (length (metrics st0)) tn"
    using tn raw unfolding generate_tensor_def cp_outcome_def num_metrics_def U_def T_def I_def
    by (rule adjust_loop_shape)
  have st1: "st1 = st0\<lparr>tensor := tn, df := ?D0\<rparr>"
    using init_df_result [OF s1] by (simp add: U_def T_def)
  \<comment> \<open>the intervention covariates\<close>
  have "\<exists>d2. st2 = st1\<lparr>df := d2,
        intervention_columns :=
          (if int_cov st0 \<noteq> [] then map (\<lambda>cov. map (cov_column_name cov) [0..<I]) (int_cov st0)
           else intervention_columns st0)\<rparr> \<and>
      nrows d2 = U * T \<and>
      (\<forall>c. c \<notin> set ?ilists \<longrightarrow> column d2 c = column ?D0 c) \<and>
      (int_cov st0 \<noteq> [] \<longrightarrow> (\<forall>c\<in>set ?ilists. column d2 c \<noteq> None))"
  proof (cases "int_cov st0 = []")
    case True
    then show ?thesis using s2 by (auto simp: st1)
  next
    case False
    with s2 obtain d2 where
      loop: "add_int_covs_loop I int_draw ?D0 (enumerate 0 (int_cov st0)) = Inr d2" and
      eq: "st2 = st1\<lparr>df := d2,
        intervention_columns := map (\<lambda>cov. map (cov_column_name cov) [0..<I]) (int_cov st0)\<rparr>"
      by (auto simp: st1 add_intervention_covs_def ebind_Inr_iff I_def)
    have lists: "concat (map (\<lambda>cc. map (cov_column_name (snd cc)) [0..<I]) (enumerate 0 (int_cov st0)))
        = ?ilists"
      by (rule arg_cong [where f = concat]) (rule map_snd_enumerate_fields)
    from add_int_covs_loop_Inr [OF loop, unfolded lists] eq False show ?thesis by auto
  qed
  then obtain d2 where
    st2: "st2 = st1\<lparr>df := d2,
        intervention_columns :=
          (if int_cov st0 \<noteq> [] then map (\<lambda>cov. map (cov_column_name cov) [0..<I]) (int_cov st0)
           else intervention_columns st0)\<rparr>" and
    rows2: "nrows d2 = U * T" and
    frame2: "\<And>c. c \<notin> set ?ilists \<Longrightarrow> column d2 c = column ?D0 c" and
    present2: "\<And>c. int_cov st0 \<noteq> [] \<Longrightarrow> c \<in> set ?ilists \<Longrightarrow> column d2 c \<noteq> None"
    by blast
  \<comment> \<open>the unit covariates\<close>
  have "\<exists>d3. st3 = st2\<lparr>df := d3\<rparr> \<and> nrows d3 = U * T \<and>
      (\<forall>c. c \<notin> set (unit_cov st0) \<longrightarrow> column d3 c = column d2 c) \<and>
      (\<forall>c. column d2 c \<noteq> None \<longrightarrow> column d3 c \<noteq> None)"
  proof (cases "unit_cov st0 = []")
    case True
    then have "unit_cov st2 = []" by (simp add: st1 st2)
    with s3 have "st3 = st2" by simp
    moreover have "st2\<lparr>df := d2\<rparr> = st2" by (simp add: st2)
    ultimately have "st3 = st2\<lparr>df := d2\<rparr>" by simp
    with rows2 show ?thesis by blast
  next
    case False
    with s3 obtain d3 where
      loop: "add_unit_covs_loop U unit_draw d2 (enumerate 0 (unit_cov st0)) = Inr d3" and
      eq: "st3 = st2\<lparr>df := d3\<rparr>"
      by (auto simp: st1 st2 add_unit_covs_def ebind_Inr_iff U_def)
    from add_unit_covs_loop_Inr [OF loop] eq rows2 show ?thesis by auto
  qed
  then obtain d3 where
    st3: "st3 = st2\<lparr>df := d3\<rparr>" and
    rows3: "nrows d3 = U * T" and
    frame3: "\<And>c. c \<notin> set (unit_cov st0) \<Longrightarrow> column d3 c = column d2 c" and
    present3: "\<And>c. column d2 c \<noteq> None \<Longrightarrow> column d3 c \<noteq> None"
    by blast
  \<comment> \<open>the metrics\<close>
  let ?ems = "enumerate 0 (metrics st0)"
  let ?mts = "map (\<lambda>em. draw_init_values U (snd em) (init_draw (fst em))) ?ems"
  let ?names = "map (\<lambda>mt. map (metric_column_name mt) [0..<I]) (metrics st0)"
  from s4 obtain d mts nms where
    loop: "add_metrics_loop st3 init_draw d3 ?ems = Inr (d, mts, nms)" and
    st: "st = st3\<lparr>df := d, metrics := mts, metric_columns := nms\<rparr>"
    by (auto simp: add_metrics_def st1 st2 st3 split: sum.splits)
  have st3_fields: "num_units st3 = U" "num_interventions st3 = I"
    by (simp_all add: st1 st2 st3 U_def I_def)
  from add_metrics_loop_Inr [OF loop, unfolded st3_fields] have
    mts: "mts = ?mts" and
    nms: "nms = map (\<lambda>em. map (metric_column_name (snd em)) [0..<I]) ?ems" and
    rows4: "nrows d = nrows d3" and
    frame4: "\<And>c. c \<notin> set (concat nms) \<Longrightarrow> column d c = column d3 c" and
    present4: "\<And>c. column d3 c \<noteq> None \<Longrightarrow> column d c \<noteq> None" and
    float4: "\<And>c. c \<in> set (concat nms) \<Longrightarrow>
        \<exists>xs. column d c = Some (map FloatC xs) \<and> length xs = nrows d3"
    by blast+
  have nms': "nms = ?names"
    unfolding nms by (rule map_snd_enumerate_fields)
  have names_mts: "map name mts = map name (metrics st0)"
  proof -
    have "map name mts = map (\<lambda>em. name (snd em)) ?ems"
      by (simp add: mts draw_init_values_fields)
    also have "\<dots> = map name (metrics st0)" by (rule map_snd_enumerate_fields)
    finally show ?thesis .
  qed
  have cols_mts: "map (\<lambda>mt. map (metric_column_name mt) [0..<I]) mts = ?names"
  proof -
    have "map (\<lambda>mt. map (metric_column_name mt) [0..<I]) mts
        = map (\<lambda>em. map (metric_column_name (snd em)) [0..<I]) ?ems"
      by (simp add: mts draw_init_values_fields)
    also have "\<dots> = ?names" by (rule map_snd_enumerate_fields)
    finally show ?thesis .
  qed
  show "num_units st = U \<and> num_timesteps st = T \<and> num_interventions st = I \<and>
      int_cov st = int_cov st0 \<and> unit_cov st = unit_cov st0 \<and>
      length (metrics st) = length (metrics st0) \<and>
      map name (metrics st) = map name (metrics st0) \<and>
      all_names st = all_names st0"
    using names_mts cols_mts
    by (simp add: st st1 st2 st3 U_def T_def I_def all_names_def) (simp add: mts)
  show "has_shape U T I (length (metrics st0)) (tensor st)"
    using shape by (simp add: st st1 st2 st3)
  show "nrows (df st) = U * T"
    using rows4 rows3 by (simp add: st)
  have key: "column d c = column ?D0 c"
    if "c \<notin> set ?mlists" "c \<notin> set (unit_cov st0)" "c \<notin> set ?ilists" for c
    using that frame4 [of c] frame3 [of c] frame2 [of c] by (simp add: nms')
  show "column (df st) ''unit_id'' = Some ?us"
  proof -
    have "column d ''unit_id'' = column ?D0 ''unit_id''"
      using parts(4) by (intro key) blast+
    then show ?thesis by (simp add: st)
  qed
  show "column (df st) ''time'' = Some ?ts"
  proof -
    have "column d ''time'' = column ?D0 ''time''"
      using parts(5) by (intro key) blast+
    then show ?thesis by (simp add: st)
  qed
  show "metric_columns st = map (\<lambda>mt. map (metric_column_name mt) [0..<I]) (metrics st)"
    by (simp add: st nms' cols_mts)
  show "\<exists>xs. column (df st) c = Some (map FloatC xs) \<and> length xs = U * T"
    if "c \<in> set (concat (metric_columns st))" for c
    using float4 [of c] that rows3 by (simp add: st)
  show "\<exists>iv. init_values mt = Some iv \<and> length iv = U"
    if "mt \<in> set (metrics st)" and "difference_metric mt" for mt
  proof -
    from that(1) obtain em where em: "em \<in> set ?ems"
      and mt: "mt = draw_init_values U (snd em) (init_draw (fst em))"
      by (auto simp: st mts)
    from em have mem: "snd em \<in> set (metrics st0)"
      by (metis in_set_zipE enumerate_eq_zip prod.collapse)
    then have ok: "case init_values (snd em) of None \<Rightarrow> True | Some iv \<Rightarrow> length iv = U"
      using init0 unfolding init_values_ok_def list_all_iff U_def by blast
    have "difference_metric (snd em)"
      using that(2) by (simp add: mt draw_init_values_fields)
    from draw_init_values_length [OF this ok] show ?thesis by (simp add: mt)
  qed
  show "intervention_columns st = map (\<lambda>cov. map (cov_column_name cov) [0..<I]) (int_cov st)"
    if "int_cov st \<noteq> []"
    using that by (simp add: st st1 st2 st3)
  show "column (df st) c \<noteq> None"
    if "int_cov st \<noteq> []" and "c \<in> set (concat (intervention_columns st))" for c
  proof -
    from that have ne: "int_cov st0 \<noteq> []" and c: "c \<in> set ?ilists"
      by (simp_all add: st st1 st2 st3)
    from present2 [OF ne c] have "column d3 c \<noteq> None" by (rule present3)
    then have "column d c \<noteq> None" by (rule present4)
    then show ?thesis by (simp add: st)
  qed
qed


lemma in_column_names: "c \<in> set (column_names d) \<longleftrightarrow> column d c \<noteq> None"
  by (simp add: column_names_def map_of_eq_None_iff)

lemma dropna_has_no_nan: "\<not> has_nan (dropna d)"
  unfolding has_nan_def list_ex_iff
  using dropna_no_nan by (metis prod.collapse)

lemma kept_rows_less: "k \<in> set (kept_rows d) \<Longrightarrow> k < nrows d"
  by (simp add: kept_rows_def)

lemma combinations_nth_eq:
  assumes "k < U * T" and "combinations U T ! k = (u, t)"
  shows "k = u * T + t"
proof -
  have T: "0 < T" using assms(1) by (cases "T = 0") simp_all
  have "k div T < U" using assms(1) by (simp add: less_mult_imp_div_less)
  then have "combinations U T ! k = (k div T, k mod T)"
    using assms(1) T by (simp add: combinations_def product_nth)
  with assms(2) have "u = k div T" "t = k mod T" by simp_all
  then show ?thesis by simp
qed

text \<open>C8, as amended. Let \<open>generate\<close> have returned the module \<open>st\<close> (from a module
  whose column names are pairwise different and whose metrics have no initial values
  yet or one per unit, for a factor tensor of the module's shape), let the tensor hold no NaN, and let \<open>intervention_assignments\<close> and
  \<open>observation_mask\<close> have the shape \<open>(num_units, num_timesteps)\<close>, every assignment
  an index of an intervention. Then \<open>sample\<close> returns; the frame has the columns
  \<open>unit_id\<close> and \<open>time\<close> and a column named after every metric; no cell of it is NaN;
  if the module has a metric, no row of a masked (unit, time) pair is left in it; and
  the subsampled tensor has the shape \<open>(num_units, num_timesteps, num_metrics)\<close>, holds
  NaN exactly at the masked pairs, and at any other pair the tensor's values for the
  assigned intervention.\<close>

theorem sample_after_generate:
  assumes gen: "generate st0 raw int_draw unit_draw init_draw = Inr st"
    and raw: "cp_outcome st0 raw"
    and dist: "distinct (all_names st0)"
    and init0: "init_values_ok st0"
    and ia: "assignments_ok st intervention_assignments"
    and obs: "mask_shape (num_units st) (num_timesteps st) observation_mask"
    and finite: "nan_free (tensor st)"
  shows "\<exists>subsampled_tensor df_copy st'.
      sample st intervention_assignments observation_mask = Inr (subsampled_tensor, df_copy, st') \<and>
      ''unit_id'' \<in> set (column_names df_copy) \<and> ''time'' \<in> set (column_names df_copy) \<and>
      list_all (\<lambda>mt. name mt \<in> set (column_names df_copy)) (metrics st) \<and>
      \<not> has_nan df_copy \<and>
      (metrics st \<noteq> [] \<longrightarrow>
        (\<forall>u<num_units st. \<forall>t<num_timesteps st. observation_mask ! u ! t \<longrightarrow>
           (IntC (int u), IntC (int t)) \<notin> set (row_keys df_copy))) \<and>
      length subsampled_tensor = num_units st \<and>
      (\<forall>u<num_units st. length (subsampled_tensor ! u) = num_timesteps st \<and>
        (\<forall>t<num_timesteps st. length (subsampled_tensor ! u ! t) = num_metrics st \<and>
          (\<forall>m<num_metrics st.
             (subsampled_tensor ! u ! t ! m = NaN) = observation_mask ! u ! t) \<and>
          (\<not> observation_mask ! u ! t \<longrightarrow>
             (\<exists>i<num_interventions st.
                py_index (num_interventions st) (intervention_assignments ! u ! t) = Inr i \<and>
                subsampled_tensor ! u ! t = tensor st ! u ! t ! i))))"
proof -
  let ?U = "num_units st" and ?T = "num_timesteps st" and ?I = "num_interventions st"
  let ?M = "num_metrics st"
  let ?n = "?U * ?T"
  let ?us = "map (\<lambda>ut. IntC (int (fst ut))) (combinations ?U ?T)"
  let ?ts = "map (\<lambda>ut. IntC (int (snd ut))) (combinations ?U ?T)"
  note g = generate_result [OF gen raw dist init0]
  from g(1) have
    same: "num_units st0 = ?U" "num_timesteps st0 = ?T" "num_interventions st0 = ?I"
      "length (metrics st0) = ?M" and
    names: "all_names st = all_names st0"
    by (simp_all add: num_metrics_def)
  have shape: "has_shape ?U ?T ?I ?M (tensor st)" using g(2) by (simp add: same)
  from ia have ia_shape: "mask_shape ?U ?T intervention_assignments"
    and ia_range: "\<And>a. a \<in> set (concat intervention_assignments) \<Longrightarrow> - int ?I \<le> a \<and> a < int ?I"
    by (auto simp: assignments_ok_def list_all_iff)
  have "\<exists>idx d2.
      sample st intervention_assignments observation_mask =
        Inr (subsample_tensor st idx observation_mask, dropna d2,
             st\<lparr>mask_arr := selection_mask st idx\<rparr>) \<and>
      length idx = ?n \<and>
      (\<forall>k<?n. py_index ?I (concat intervention_assignments ! k) = Inr (idx ! k)) \<and>
      nrows d2 = ?n \<and> column d2 ''unit_id'' = Some ?us \<and> column d2 ''time'' = Some ?ts \<and>
      (\<forall>mt\<in>set (metrics st). \<exists>vs. column d2 (name mt) = Some (map FloatC vs) \<and>
          length vs = ?n \<and> (\<forall>k<?n. concat observation_mask ! k \<longrightarrow> vs ! k = NaN))"
  proof (rule sample_run)
    show "nrows (df st) = ?n" using g(3) by (simp add: same)
    show "column (df st) ''unit_id'' = Some ?us" using g(4) by (simp add: same)
    show "column (df st) ''time'' = Some ?ts" using g(5) by (simp add: same)
    show "metric_columns st = map (\<lambda>mt. map (metric_column_name mt) [0..<?I]) (metrics st)"
      using g(6) by (simp add: same)
    show "\<And>c. c \<in> set (concat (metric_columns st)) \<Longrightarrow>
        \<exists>xs. column (df st) c = Some (map FloatC xs) \<and> length xs = ?n"
      using g(7) by (simp add: same)
    show "\<And>mt. mt \<in> set (metrics st) \<Longrightarrow> difference_metric mt \<Longrightarrow>
        \<exists>iv. init_values mt = Some iv \<and> length iv = ?U"
      using g(8) by (simp add: same)
    show "int_cov st \<noteq> [] \<Longrightarrow>
        intervention_columns st = map (\<lambda>cov. map (cov_column_name cov) [0..<?I]) (int_cov st)"
      using g(9) by (simp add: same)
    show "\<And>c. int_cov st \<noteq> [] \<Longrightarrow> c \<in> set (concat (intervention_columns st)) \<Longrightarrow>
        column (df st) c \<noteq> None"
      using g(10) by simp
    show "distinct (all_names st)" using dist by (simp add: names)
    show "mask_shape ?U ?T intervention_assignments" by (rule ia_shape)
    show "\<And>a. a \<in> set (concat intervention_assignments) \<Longrightarrow> - int ?I \<le> a \<and> a < int ?I"
      by (rule ia_range)
    show "mask_shape ?U ?T observation_mask" by (rule obs)
  qed
  then obtain idx d2 where
    run: "sample st intervention_assignments observation_mask =
        Inr (subsample_tensor st idx observation_mask, dropna d2,
             st\<lparr>mask_arr := selection_mask st idx\<rparr>)" and
    idx: "length idx = ?n"
      "\<And>k. k < ?n \<Longrightarrow> py_index ?I (concat intervention_assignments ! k) = Inr (idx ! k)" and
    rows2: "nrows d2 = ?n" and
    keys2: "column d2 ''unit_id'' = Some ?us" "column d2 ''time'' = Some ?ts" and
    metric2: "\<And>mt. mt \<in> set (metrics st) \<Longrightarrow>
        \<exists>vs. column d2 (name mt) = Some (map FloatC vs) \<and> length vs = ?n \<and>
          (\<forall>k<?n. concat observation_mask ! k \<longrightarrow> vs ! k = NaN)"
    by blast
  let ?sst = "subsample_tensor st idx observation_mask" and ?d = "dropna d2"
  \<comment> \<open>the frame\<close>
  have c1: "''unit_id'' \<in> set (column_names ?d)" "''time'' \<in> set (column_names ?d)"
    using keys2 by (simp_all add: in_column_names column_dropna)
  have c2: "list_all (\<lambda>mt. name mt \<in> set (column_names ?d)) (metrics st)"
    unfolding list_all_iff
  proof
    fix mt assume "mt \<in> set (metrics st)"
    from metric2 [OF this] show "name mt \<in> set (column_names ?d)"
      by (auto simp: in_column_names column_dropna)
  qed
  have c3: "\<not> has_nan ?d" by (rule dropna_has_no_nan)
  have c4: "(IntC (int u), IntC (int t)) \<notin> set (row_keys ?d)"
    if ne: "metrics st \<noteq> []" and u: "u < ?U" and t: "t < ?T" and m: "observation_mask ! u ! t" for u t
  proof
    let ?k = "u * ?T + t"
    let ?kept = "kept_rows d2"
    assume "(IntC (int u), IntC (int t)) \<in> set (row_keys ?d)"
    then have "(IntC (int u), IntC (int t)) \<in>
        set (zip (map (\<lambda>k. ?us ! k) ?kept) (map (\<lambda>k. ?ts ! k) ?kept))"
      using keys2 by (simp add: row_keys_def column_dropna)
    then obtain j where j: "j < length ?kept"
      and uj: "?us ! (?kept ! j) = IntC (int u)" and tj: "?ts ! (?kept ! j) = IntC (int t)"
      by (auto simp: in_set_zip)
    let ?k' = "?kept ! j"
    have kept: "?k' \<in> set ?kept" using j by simp
    then have less: "?k' < ?n" using kept_rows_less [of ?k' d2] rows2 by simp
    have "combinations ?U ?T ! ?k' = (u, t)"
      using uj tj less by (simp add: length_combinations prod_eq_iff)
    with less have k': "?k' = ?k" by (rule combinations_nth_eq)
    from ne obtain mt where mt: "mt \<in> set (metrics st)" by (cases "metrics st") auto
    from metric2 [OF mt] obtain vs where
      vs: "column d2 (name mt) = Some (map FloatC vs)" "length vs = ?n"
        "\<And>k. k < ?n \<Longrightarrow> concat observation_mask ! k \<Longrightarrow> vs ! k = NaN"
      by blast
    have "concat observation_mask ! ?k = observation_mask ! u ! t"
      using obs u t by (rule nth_concat_rows)
    with m vs(3) [of ?k] less k' have "vs ! ?k = NaN" by simp
    then have "is_nan_cell (map FloatC vs ! ?k)" using less k' vs(2) by simp
    with vs(1) have "?k \<notin> set ?kept" by (rule nan_row_not_kept)
    with kept k' show False by simp
  qed
  \<comment> \<open>the tensor\<close>
  have idx_less: "idx ! k < ?I" if "k < ?n" for k
    using idx(2) [OF that] by (rule py_index_Inr_less)
  have cell3: "?sst ! u ! t =
      (if observation_mask ! u ! t then replicate ?M NaN
       else tensor st ! u ! t ! (idx ! (u * ?T + t)))" if "u < ?U" "t < ?T" for u t
    using shape idx_less that by (rule subsample_tensor_nth(3))
  have cell4: "length (?sst ! u ! t) = ?M" if "u < ?U" "t < ?T" for u t
    using shape idx_less that by (rule subsample_tensor_nth(4))
  have t1: "length ?sst = ?U" by (simp add: subsample_tensor_def Let_def)
  have t2: "length (?sst ! u) = ?T \<and>
      (\<forall>t<?T. length (?sst ! u ! t) = ?M \<and>
        (\<forall>m<?M. (?sst ! u ! t ! m = NaN) = observation_mask ! u ! t) \<and>
        (\<not> observation_mask ! u ! t \<longrightarrow>
           (\<exists>i<?I. py_index ?I (intervention_assignments ! u ! t) = Inr i \<and>
              ?sst ! u ! t = tensor st ! u ! t ! i)))" if u: "u < ?U" for u
  proof (intro conjI allI impI)
    show "length (?sst ! u) = ?T" using u by (simp add: subsample_tensor_def Let_def)
  next
    fix t assume t: "t < ?T"
    show "length (?sst ! u ! t) = ?M" using u t by (rule cell4)
  next
    fix t m assume t: "t < ?T" and m: "m < ?M"
    let ?k = "u * ?T + t"
    have k: "?k < ?n" using u t by (rule flat_position_less)
    have "tensor st ! u ! t ! (idx ! ?k) ! m \<noteq> NaN"
    proof -
      have "u < length (tensor st)" "t < length (tensor st ! u)"
        "idx ! ?k < length (tensor st ! u ! t)" "m < length (tensor st ! u ! t ! (idx ! ?k))"
        using shape u t idx_less [OF k] m by (auto simp: has_shape_def list_all_length)
      with finite show ?thesis by (auto simp: nan_free_def list_all_length)
    qed
    then show "(?sst ! u ! t ! m = NaN) = observation_mask ! u ! t"
      using m by (simp add: cell3 [OF u t])
  next
    fix t assume t: "t < ?T" and unmasked: "\<not> observation_mask ! u ! t"
    let ?k = "u * ?T + t"
    have k: "?k < ?n" using u t by (rule flat_position_less)
    have "concat intervention_assignments ! ?k = intervention_assignments ! u ! t"
      using ia_shape u t by (rule nth_concat_rows)
    with idx(2) [OF k] have "py_index ?I (intervention_assignments ! u ! t) = Inr (idx ! ?k)"
      by simp
    moreover have "?sst ! u ! t = tensor st ! u ! t ! (idx ! ?k)"
      using unmasked by (simp add: cell3 [OF u t])
    ultimately show "\<exists>i<?I. py_index ?I (intervention_assignments ! u ! t) = Inr i \<and>
        ?sst ! u ! t = tensor st ! u ! t ! i"
      using idx_less [OF k] by blast
  qed
  from run c1 c2 c3 c4 t1 t2 show ?thesis by blast
qed

text \<open>C8, a concrete run: the store panel, the second time step of the first unit
  masked, the last assignment written as \<open>-1\<close>.\<close>

theorem sample_after_generate_witness:
  "(case generate store_module store_raw
           (\<lambda>c i. map (\<lambda>k. IntC (int (i * 10 + k))) [0..<4])
           (\<lambda>c u. StrC (if u = 0 then ''north'' else ''south''))
           (\<lambda>m u. Fl (1 / 2)) of
      Inl err \<Rightarrow> False
    | Inr st \<Rightarrow>
        (case sample st [[0, 1], [1, - 1]] [[False, True], [False, False]] of
           Inl err \<Rightarrow> False
         | Inr (subsampled_tensor, df_copy, st') \<Rightarrow>
             column_names df_copy =
               [''unit_id'', ''time'', ''region'', ''intervention'', ''sales'', ''stock'', ''price''] \<and>
             row_keys df_copy = [(IntC 0, IntC 0), (IntC 1, IntC 0), (IntC 1, IntC 1)] \<and>
             \<not> has_nan df_copy \<and>
             subsampled_tensor =
               [[[Fl 0, Fl (1 / 7)], [NaN, NaN]], [[Fl (50 / 7), Fl 1], [Fl 10, Fl 0]]] \<and>
             (\<exists>i<2. py_index 2 (- 1) = Inr i \<and> subsampled_tensor ! 1 ! 1 = tensor st ! 1 ! 1 ! i)))"
proof -
  let ?gen = "generate store_module store_raw
           (\<lambda>c i. map (\<lambda>k. IntC (int (i * 10 + k))) [0..<4])
           (\<lambda>c u. StrC (if u = 0 then ''north'' else ''south''))
           (\<lambda>m u. Fl (1 / 2))"
  let ?ia = "[[0, 1], [1, - 1 :: int]]" and ?obs = "[[False, True], [False, False]]"
  have pre: "cp_outcome store_module store_raw" "distinct (all_names store_module)"
      "init_values_ok store_module"
    by code_simp+
  have "case ?gen of Inl err \<Rightarrow> False
        | Inr st \<Rightarrow> assignments_ok st ?ia \<and>
            mask_shape (num_units st) (num_timesteps st) ?obs \<and> nan_free (tensor st) \<and>
            num_units st = 2 \<and> num_timesteps st = 2 \<and> num_interventions st = 2 \<and>
            (case sample st ?ia ?obs of
               Inl err \<Rightarrow> False
             | Inr (subsampled_tensor, df_copy, st') \<Rightarrow>
                 column_names df_copy =
                   [''unit_id'', ''time'', ''region'', ''intervention'', ''sales'', ''stock'',
                    ''price''] \<and>
                 row_keys df_copy = [(IntC 0, IntC 0), (IntC 1, IntC 0), (IntC 1, IntC 1)] \<and>
                 subsampled_tensor =
                   [[[Fl 0, Fl (1 / 7)], [NaN, NaN]], [[Fl (50 / 7), Fl 1], [Fl 10, Fl 0]]])"
    by code_simp
  then obtain st where gen: "?gen = Inr st"
    and hyps: "assignments_ok st ?ia" "mask_shape (num_units st) (num_timesteps st) ?obs"
      "nan_free (tensor st)"
    and dims: "num_units st = 2" "num_timesteps st = 2" "num_interventions st = 2"
    and val: "case sample st ?ia ?obs of
               Inl err \<Rightarrow> False
             | Inr (subsampled_tensor, df_copy, st') \<Rightarrow>
                 column_names df_copy =
                   [''unit_id'', ''time'', ''region'', ''intervention'', ''sales'', ''stock'',
                    ''price''] \<and>
                 row_keys df_copy = [(IntC 0, IntC 0), (IntC 1, IntC 0), (IntC 1, IntC 1)] \<and>
                 subsampled_tensor =
                   [[[Fl 0, Fl (1 / 7)], [NaN, NaN]], [[Fl (50 / 7), Fl 1], [Fl 10, Fl 0]]]"
    by (auto split: sum.splits)
  from sample_after_generate [OF gen pre hyps] obtain sst d st' where
    run: "sample st ?ia ?obs = Inr (sst, d, st')" and
    no_nan: "\<not> has_nan d" and
    cells: "\<forall>u<num_units st. length (sst ! u) = num_timesteps st \<and>
        (\<forall>t<num_timesteps st. length (sst ! u ! t) = num_metrics st \<and>
          (\<forall>m<num_metrics st. (sst ! u ! t ! m = NaN) = ?obs ! u ! t) \<and>
          (\<not> ?obs ! u ! t \<longrightarrow>
             (\<exists>i<num_interventions st.
                py_index (num_interventions st) (?ia ! u ! t) = Inr i \<and>
                sst ! u ! t = tensor st ! u ! t ! i)))"
    by blast
  from cells dims have "\<exists>i<2. py_index 2 (- 1) = Inr i \<and> sst ! 1 ! 1 = tensor st ! 1 ! 1 ! i"
    by (auto dest!: spec [of _ 1])
  with gen run no_nan val show ?thesis by simp
qed

text \<open>C8 as first stated fails. With one unit, one time step and one intervention
  \<open>generate\<close> divides \<open>0\<close> by \<open>0\<close> when it adjusts the metric's range, the tensor
  holds NaN, and \<open>sample\<close> returns NaN at a pair that is not masked (and drops its
  row). With a metric named \<open>sales_0\<close> beside a metric \<open>sales\<close> the frame
  \<open>sample\<close> returns has no column for \<open>sales_0\<close>: the column is overwritten and then
  dropped with the columns of \<open>sales\<close>.\<close>

theorem sample_nan_counterexample:
  "(case generate single_cell_module [[[[Fl 3]]]] (\<lambda>c i. []) (\<lambda>c u. IntC 0) (\<lambda>m u. Fl 0) of
      Inl err \<Rightarrow> False
    | Inr st \<Rightarrow>
        (case sample st [[0]] [[False]] of
           Inl err \<Rightarrow> False
         | Inr (subsampled_tensor, df_copy, st') \<Rightarrow>
             subsampled_tensor ! 0 ! 0 ! 0 = NaN \<and> \<not> [[False]] ! 0 ! 0 \<and> nrows df_copy = 0)) \<and>
   (case generate clash_module
           [[[[Fl 1, Fl 2], [Fl 3, Fl 4]], [[Fl 5, Fl 6], [Fl 7, Fl 8]]]]
           (\<lambda>c i. []) (\<lambda>c u. IntC 0) (\<lambda>m u. Fl 0) of
      Inl err \<Rightarrow> False
    | Inr st \<Rightarrow>
        (case sample st [[0, 1]] [[False, False]] of
           Inl err \<Rightarrow> False
         | Inr (subsampled_tensor, df_copy, st') \<Rightarrow>
             map name (metrics st) = [''sales_0'', ''sales''] \<and>
             ''sales_0'' \<notin> set (column_names df_copy)))"
  by code_simp

subsection \<open>The anchor cache\<close>





end
